theory Spec2Isabelle
  imports Main "HOL-Library.Sublist" "HOL-Library.AList" "HOL-Library.Word"
begin

section \<open>The multiplexing relay: class PlaywriterRelay\<close>

text \<open>
  Strings and buffers are lists of bytes: a JavaScript string is represented by its
  UTF-8 encoding, which is what \<^verbatim>\<open>data.toString()\<close> and \<^verbatim>\<open>Buffer.from(str)\<close>
  convert between. A socket object is identified by a natural number; the closure that
  \<^verbatim>\<open>forwardClientToServe\<close> builds around a socket (\<^verbatim>\<open>clientInfo\<close>, \<^verbatim>\<open>outputHandler\<close>,
  \<^verbatim>\<open>cleanup\<close>) is identified by that socket.
\<close>

type_synonym bytes = string
type_synonym clientId = string

datatype error = TypeError | RangeError | SyntaxError | StreamError string

text \<open>
  \<^verbatim>\<open>this.serveProcess.stdin\<close>: \<^verbatim>\<open>null\<close> when the child was spawned with
  \<^verbatim>\<open>'ignore'\<close> for its standard input, a writable stream when it was spawned with
  \<^verbatim>\<open>'pipe'\<close>.
\<close>

datatype stdin = StdinNull | StdinPipe

text \<open>The state of the promise that \<^verbatim>\<open>writeToServe\<close> returns.\<close>

datatype outcome = Pending | Resolved | Rejected error

text \<open>A queue entry \<^verbatim>\<open>{ data, resolve, reject }\<close>; the two callbacks settle one promise.\<close>

record item =
  data :: bytes
  promise :: nat

record socket =
  written :: "bytes list"
  ended :: bool
  destroyed :: bool

text \<open>
  \<^verbatim>\<open>clientInfo\<close>. The two \<^verbatim>\<open>Set\<close>s are lists without repetition in insertion order,
  which is the order \<^verbatim>\<open>forEach\<close> visits.
\<close>

record clientInfo =
  clientId :: clientId
  closed :: bool
  pages :: "string list"
  messageIds :: "nat list"

text \<open>
  The fields of the class, followed by what the class acts on: the closures it has built,
  the sockets, the listeners on the serve process's standard output, the chunks handed to
  \<^verbatim>\<open>stdin.write\<close> (in call order), the writes whose callback has not run yet, and the
  promises. \<^verbatim>\<open>clientMessageIds\<close> stores a reference to the closure's own \<^verbatim>\<open>messageIds\<close>
  set, so it maps to the closure.
\<close>

record relay =
  clients :: "clientId \<rightharpoonup> nat"
  serveProcess :: "stdin option"
  writeQueue :: "item list"
  isWriting :: bool
  messageIdMap :: "nat \<rightharpoonup> clientId"
  pageOwnership :: "string \<rightharpoonup> clientId"
  clientMessageIds :: "clientId \<rightharpoonup> nat"
  nextMessageId :: nat
  infos :: "nat \<rightharpoonup> clientInfo"
  sockets :: "nat \<Rightarrow> socket"
  stdoutListeners :: "nat list"
  stdinWrites :: "bytes list"
  pendingWrites :: "item list"
  promises :: "nat \<Rightarrow> outcome"
  nextPromise :: nat

definition new_socket :: socket where
  "new_socket = \<lparr>written = [], ended = False, destroyed = False\<rparr>"

text \<open>The constructor; \<^verbatim>\<open>node\<close> (the DHT handle) plays no part in relaying.\<close>

definition constructor :: relay where
  "constructor =
     \<lparr>clients = Map.empty, serveProcess = None, writeQueue = [], isWriting = False,
      messageIdMap = Map.empty, pageOwnership = Map.empty, clientMessageIds = Map.empty,
      nextMessageId = 1, infos = Map.empty, sockets = (\<lambda>_. new_socket),
      stdoutListeners = [], stdinWrites = [], pendingWrites = [],
      promises = (\<lambda>_. Pending), nextPromise = 0\<rparr>"

text \<open>
  \<^verbatim>\<open>startServer\<close> spawns the serve process before it accepts any connection. The source
  passes \<^verbatim>\<open>stdio: ['ignore', 'pipe', 'pipe']\<close>; the standard-input mode is a parameter
  here, and \<open>startServer\<close> is the source's choice.
\<close>

definition spawn :: "stdin \<Rightarrow> relay \<Rightarrow> relay" where
  "spawn mode s = s\<lparr>serveProcess := Some mode\<rparr>"

definition startServer :: relay where
  "startServer = spawn StdinNull constructor"

subsection \<open>The write serializer\<close>

text \<open>Settling a promise that is already settled has no effect.\<close>

definition settle :: "nat \<Rightarrow> outcome \<Rightarrow> relay \<Rightarrow> relay" where
  "settle p out s =
     (if promises s p = Pending then s\<lparr>promises := (promises s)(p := out)\<rparr> else s)"

text \<open>
  \<^verbatim>\<open>processWriteQueue\<close> up to the call of \<^verbatim>\<open>stdin.write\<close>. The second component is the
  exception thrown, if any: reading \<^verbatim>\<open>write\<close> from a \<^verbatim>\<open>null\<close> stdin is a TypeError,
  raised after \<^verbatim>\<open>isWriting\<close> was set and the item was shifted.
\<close>

definition processWriteQueue :: "relay \<Rightarrow> relay \<times> error option" where
  "processWriteQueue s =
     (if isWriting s \<or> serveProcess s = None then (s, None)
      else case writeQueue s of
        [] \<Rightarrow> (s, None)
      | it # rest \<Rightarrow>
          let s1 = s\<lparr>isWriting := True, writeQueue := rest\<rparr>
          in (case serveProcess s of
                Some StdinPipe \<Rightarrow>
                  (s1\<lparr>stdinWrites := stdinWrites s1 @ [data it],
                      pendingWrites := pendingWrites s1 @ [it]\<rparr>, None)
              | _ \<Rightarrow> (s1, Some TypeError)))"

text \<open>
  \<^verbatim>\<open>writeToServe\<close>: the executor pushes the entry and runs \<^verbatim>\<open>processWriteQueue\<close>; an
  exception thrown inside a promise executor rejects that promise. Both callers attach a
  \<^verbatim>\<open>.catch\<close> that only logs, so the promise itself is not returned.
\<close>

definition writeToServe :: "bytes \<Rightarrow> relay \<Rightarrow> relay" where
  "writeToServe d s =
     (let p = nextPromise s;
          s1 = s\<lparr>nextPromise := p + 1, writeQueue := writeQueue s @ [\<lparr>data = d, promise = p\<rparr>]\<rparr>
      in case processWriteQueue s1 of
           (s2, None) \<Rightarrow> s2
         | (s2, Some e) \<Rightarrow> settle p (Rejected e) s2)"

text \<open>
  The callback given to \<^verbatim>\<open>stdin.write\<close>, run by the stream for its oldest unfinished
  write, with the error if the write failed. Without an unfinished write there is no
  callback to run.
\<close>

definition write_callback :: "error option \<Rightarrow> relay \<Rightarrow> relay \<times> error option" where
  "write_callback err s =
     (case pendingWrites s of
        [] \<Rightarrow> (s, None)
      | it # rest \<Rightarrow>
          let s1 = s\<lparr>pendingWrites := rest, isWriting := False\<rparr>;
              s2 = settle (promise it) (case err of Some e \<Rightarrow> Rejected e | None \<Rightarrow> Resolved) s1
          in processWriteQueue s2)"

text \<open>The enqueue/drain loop as a machine: callers enqueue, the stream completes writes.\<close>

datatype wevent = Enqueue bytes | Complete "error option"

fun wstep :: "wevent \<Rightarrow> relay \<Rightarrow> relay" where
  "wstep (Enqueue d) s = writeToServe d s"
| "wstep (Complete err) s = fst (write_callback err s)"

definition wrun :: "wevent list \<Rightarrow> relay \<Rightarrow> relay" where
  "wrun evs s = fold wstep evs s"

fun enqueued :: "wevent list \<Rightarrow> bytes list" where
  "enqueued [] = []"
| "enqueued (Enqueue d # evs) = d # enqueued evs"
| "enqueued (Complete err # evs) = enqueued evs"

text \<open>What the backend has been or will be handed: the writes made, then the queue.\<close>

definition backlog :: "relay \<Rightarrow> bytes list" where
  "backlog s = stdinWrites s @ map data (writeQueue s)"

text \<open>
  At most one write is unfinished, and none while \<^verbatim>\<open>isWriting\<close> is false.
\<close>

definition single_flight :: "relay \<Rightarrow> bool" where
  "single_flight s \<longleftrightarrow> (\<not> isWriting s \<longrightarrow> pendingWrites s = []) \<and> length (pendingWrites s) \<le> 1"

text \<open>The serializer is idle with nothing queued, as it is when the server starts.\<close>

definition idle :: "relay \<Rightarrow> bool" where
  "idle s \<longleftrightarrow> writeQueue s = [] \<and> \<not> isWriting s \<and> pendingWrites s = [] \<and> stdinWrites s = []"


subsection \<open>Scanning chunks\<close>

text \<open>
  The white space of ECMAScript (the class \<^verbatim>\<open>\s\<close>, and what \<^verbatim>\<open>trim\<close> removes), as UTF-8:
  U+0009 to U+000D, U+0020, U+00A0, U+1680, U+2000 to U+200A, U+2028, U+2029, U+202F,
  U+205F, U+3000 and U+FEFF.
\<close>

definition ws_seqs :: "string list" where
  "ws_seqs =
     [[CHR 0x09], [CHR 0x0A], [CHR 0x0B], [CHR 0x0C], [CHR 0x0D], [CHR 0x20],
      [CHR 0xC2, CHR 0xA0], [CHR 0xE1, CHR 0x9A, CHR 0x80],
      [CHR 0xE2, CHR 0x80, CHR 0x80], [CHR 0xE2, CHR 0x80, CHR 0x81],
      [CHR 0xE2, CHR 0x80, CHR 0x82], [CHR 0xE2, CHR 0x80, CHR 0x83],
      [CHR 0xE2, CHR 0x80, CHR 0x84], [CHR 0xE2, CHR 0x80, CHR 0x85],
      [CHR 0xE2, CHR 0x80, CHR 0x86], [CHR 0xE2, CHR 0x80, CHR 0x87],
      [CHR 0xE2, CHR 0x80, CHR 0x88], [CHR 0xE2, CHR 0x80, CHR 0x89],
      [CHR 0xE2, CHR 0x80, CHR 0x8A], [CHR 0xE2, CHR 0x80, CHR 0xA8],
      [CHR 0xE2, CHR 0x80, CHR 0xA9], [CHR 0xE2, CHR 0x80, CHR 0xAF],
      [CHR 0xE2, CHR 0x81, CHR 0x9F], [CHR 0xE3, CHR 0x80, CHR 0x80],
      [CHR 0xEF, CHR 0xBB, CHR 0xBF]]"

text \<open>The number of bytes of the first of the given sequences that starts the string.\<close>

definition lead_len :: "string list \<Rightarrow> string \<Rightarrow> nat" where
  "lead_len seqs str = (case find (\<lambda>w. prefix w str) seqs of Some w \<Rightarrow> length w | None \<Rightarrow> 0)"

function strip_lead :: "string list \<Rightarrow> string \<Rightarrow> string" where
  "strip_lead seqs str =
     (if lead_len seqs str = 0 \<or> str = [] then str
      else strip_lead seqs (drop (lead_len seqs str) str))"
  by pat_completeness auto
termination
  by (relation "measure (\<lambda>(seqs, str). length str)") auto

definition skip_ws :: "string \<Rightarrow> string" where
  "skip_ws str = strip_lead ws_seqs str"

text \<open>\<^verbatim>\<open>String.prototype.trim\<close>.\<close>

definition trim :: "string \<Rightarrow> string" where
  "trim str = rev (strip_lead (map rev ws_seqs) (rev (skip_ws str)))"

definition strip_prefix :: "string \<Rightarrow> string \<Rightarrow> string option" where
  "strip_prefix w str = (if prefix w str then Some (drop (length w) str) else None)"

definition is_digit :: "char \<Rightarrow> bool" where
  "is_digit c \<longleftrightarrow> (48::nat) \<le> of_char c \<and> of_char c \<le> (57::nat)"

text \<open>
  \<^verbatim>\<open>parseInt\<close> on a run of decimal digits. The value is kept as a natural number; a
  JavaScript number is exact up to \<open>2 ^ 53\<close>.
\<close>

definition parseInt :: "string \<Rightarrow> nat" where
  "parseInt ds = foldl (\<lambda>a c. 10 * a + (of_char c - 48)) 0 ds"

text \<open>
  The rest of a field after its quoted name: \<^verbatim>\<open>\s*:\s*\<close>. Both stars are greedy and what
  follows each cannot start with white space, so there is one way to match.
\<close>

definition after_colon :: "string \<Rightarrow> string option" where
  "after_colon str =
     (case skip_ws str of
        [] \<Rightarrow> None
      | c # rest \<Rightarrow> if c = CHR '':'' then Some (skip_ws rest) else None)"

text \<open>The pattern \<^verbatim>\<open>/"id"\s*:\s*(\d+)/\<close> matched at the start of the string.\<close>

definition id_here :: "string \<Rightarrow> nat option" where
  "id_here str =
     (case strip_prefix (CHR 0x22 # ''id'' @ [CHR 0x22]) str of
        None \<Rightarrow> None
      | Some r \<Rightarrow>
          (case after_colon r of
             None \<Rightarrow> None
           | Some v \<Rightarrow>
               if takeWhile is_digit v = [] then None
               else Some (parseInt (takeWhile is_digit v))))"

text \<open>\<^verbatim>\<open>str.match(/"id"\s*:\s*(\d+)/)\<close> with \<^verbatim>\<open>parseInt(match[1])\<close>: the leftmost match.\<close>

fun match_id :: "string \<Rightarrow> nat option" where
  "match_id [] = None"
| "match_id (c # cs) =
     (case id_here (c # cs) of Some n \<Rightarrow> Some n | None \<Rightarrow> match_id cs)"

text \<open>The pattern \<^verbatim>\<open>/"pageId"\s*:\s*"([^"]+)"/\<close> matched at the start of the string.\<close>

definition pageId_here :: "string \<Rightarrow> string option" where
  "pageId_here str =
     (case strip_prefix (CHR 0x22 # ''pageId'' @ [CHR 0x22]) str of
        None \<Rightarrow> None
      | Some r \<Rightarrow>
          (case after_colon r of
             None \<Rightarrow> None
           | Some [] \<Rightarrow> None
           | Some (q # v) \<Rightarrow>
               if q = CHR 0x22 \<and> takeWhile (\<lambda>c. c \<noteq> CHR 0x22) v \<noteq> []
                  \<and> dropWhile (\<lambda>c. c \<noteq> CHR 0x22) v \<noteq> []
               then Some (takeWhile (\<lambda>c. c \<noteq> CHR 0x22) v) else None))"

fun match_pageId :: "string \<Rightarrow> string option" where
  "match_pageId [] = None"
| "match_pageId (c # cs) =
     (case pageId_here (c # cs) of Some p \<Rightarrow> Some p | None \<Rightarrow> match_pageId cs)"

text \<open>\<^verbatim>\<open>str.includes(sub)\<close>.\<close>

fun str_includes :: "string \<Rightarrow> string \<Rightarrow> bool" where
  "str_includes [] sub = (sub = [])"
| "str_includes (c # cs) sub = (prefix sub (c # cs) \<or> str_includes cs sub)"

subsection \<open>The release request\<close>

definition digit_char :: "nat \<Rightarrow> char" where
  "digit_char n = char_of (48 + n)"

text \<open>A non-negative integer as JSON prints it.\<close>

function show_nat :: "nat \<Rightarrow> string" where
  "show_nat n = (if n < 10 then [digit_char n] else show_nat (n div 10) @ [digit_char (n mod 10)])"
  by pat_completeness auto
termination
  by (relation "measure id") auto

definition hex_char :: "nat \<Rightarrow> char" where
  "hex_char n = (if n < 10 then char_of (48 + n) else char_of (87 + n))"

text \<open>
  A character inside a JSON string as \<^verbatim>\<open>JSON.stringify\<close> writes it: the quote and the
  backslash are escaped, control characters have a short escape or \<^verbatim>\<open>\u00XX\<close>.
\<close>

definition json_char :: "char \<Rightarrow> string" where
  "json_char c =
     (if c = CHR 0x22 then [CHR 0x5C, CHR 0x22]
      else if c = CHR 0x5C then [CHR 0x5C, CHR 0x5C]
      else if c = CHR 0x08 then [CHR 0x5C, CHR ''b'']
      else if c = CHR 0x0C then [CHR 0x5C, CHR ''f'']
      else if c = CHR 0x0A then [CHR 0x5C, CHR ''n'']
      else if c = CHR 0x0D then [CHR 0x5C, CHR ''r'']
      else if c = CHR 0x09 then [CHR 0x5C, CHR ''t'']
      else if (of_char c :: nat) < 32
        then [CHR 0x5C, CHR ''u'', CHR ''0'', CHR ''0'',
              hex_char (of_char c div 16), hex_char (of_char c mod 16)]
      else [c])"

definition json_string :: "string \<Rightarrow> string" where
  "json_string str = CHR 0x22 # concat (map json_char str) @ [CHR 0x22]"

text \<open>
  \<^verbatim>\<open>JSON.stringify({ jsonrpc: '2.0', id, method: 'closePage', params: { pageId } })\<close>.
\<close>

definition closePageCmd :: "nat \<Rightarrow> string \<Rightarrow> bytes" where
  "closePageCmd n pageId =
     ''{'' @ json_string ''jsonrpc'' @ '':'' @ json_string ''2.0'' @ '',''
       @ json_string ''id'' @ '':'' @ show_nat n @ '',''
       @ json_string ''method'' @ '':'' @ json_string ''closePage'' @ '',''
       @ json_string ''params'' @ '':{'' @ json_string ''pageId'' @ '':''
       @ json_string pageId @ ''}}''"

subsection \<open>Sessions\<close>

text \<open>\<^verbatim>\<open>Set.prototype.add\<close> and \<^verbatim>\<open>delete\<close> on an insertion-ordered set.\<close>

definition set_add :: "'a \<Rightarrow> 'a list \<Rightarrow> 'a list" where
  "set_add x xs = (if x \<in> set xs then xs else xs @ [x])"

definition set_delete :: "'a \<Rightarrow> 'a list \<Rightarrow> 'a list" where
  "set_delete x xs = removeAll x xs"

definition socket_write :: "nat \<Rightarrow> bytes \<Rightarrow> relay \<Rightarrow> relay" where
  "socket_write k d s =
     s\<lparr>sockets := (sockets s)(k := (sockets s k)\<lparr>written := written (sockets s k) @ [d]\<rparr>)\<rparr>"

definition socket_end :: "nat \<Rightarrow> relay \<Rightarrow> relay" where
  "socket_end k s = s\<lparr>sockets := (sockets s)(k := (sockets s k)\<lparr>ended := True\<rparr>)\<rparr>"

definition socket_destroy :: "nat \<Rightarrow> relay \<Rightarrow> relay" where
  "socket_destroy k s = s\<lparr>sockets := (sockets s)(k := (sockets s k)\<lparr>destroyed := True\<rparr>)\<rparr>"

text \<open>
  \<^verbatim>\<open>forwardClientToServe\<close> up to the registration of its handlers: the closure for socket
  \<open>k\<close> is created, registered under \<open>cid\<close>, and its \<^verbatim>\<open>outputHandler\<close> is added to the
  listeners of the serve process's standard output.
\<close>

definition forwardClientToServe :: "clientId \<Rightarrow> nat \<Rightarrow> relay \<Rightarrow> relay" where
  "forwardClientToServe cid k s =
     (if serveProcess s = None then socket_end k s
      else s\<lparr>infos := (infos s)(k \<mapsto> \<lparr>clientId = cid, closed = False, pages = [], messageIds = []\<rparr>),
             clients := (clients s)(cid \<mapsto> k),
             clientMessageIds := (clientMessageIds s)(cid \<mapsto> k),
             stdoutListeners := stdoutListeners s @ [k]\<rparr>)"

text \<open>
  The \<^verbatim>\<open>socket.once('data', ...)\<close> handler of \<^verbatim>\<open>startServer\<close>: the first chunk of a new
  connection, for which \<open>cid\<close> was drawn, checked against the token given to
  \<^verbatim>\<open>startServer\<close>.
\<close>

definition first_data :: "string \<Rightarrow> clientId \<Rightarrow> nat \<Rightarrow> bytes \<Rightarrow> relay \<Rightarrow> relay" where
  "first_data token cid k d s =
     (if trim d \<noteq> token then socket_end k s else forwardClientToServe cid k s)"

text \<open>The \<^verbatim>\<open>socket.on('data', ...)\<close> handler of the closure for socket \<open>k\<close>.\<close>

definition client_data :: "nat \<Rightarrow> bytes \<Rightarrow> relay \<Rightarrow> relay" where
  "client_data k d s =
     (case infos s k of
        None \<Rightarrow> s
      | Some ci \<Rightarrow>
          let s1 = (case match_id d of
                      None \<Rightarrow> s
                    | Some messageId \<Rightarrow>
                        s\<lparr>infos := (infos s)(k \<mapsto> ci\<lparr>messageIds := set_add messageId (messageIds ci)\<rparr>),
                          messageIdMap := (messageIdMap s)(messageId \<mapsto> clientId ci)\<rparr>)
          in writeToServe d s1)"

text \<open>The page bookkeeping of \<^verbatim>\<open>outputHandler\<close>, after a chunk was delivered.\<close>

definition track_page :: "nat \<Rightarrow> bytes \<Rightarrow> relay \<Rightarrow> relay" where
  "track_page k d s =
     (if str_includes d ''createPage'' \<and> str_includes d (CHR 0x22 # ''result'' @ [CHR 0x22]) then
        (case (match_pageId d, infos s k) of
           (Some pageId, Some ci) \<Rightarrow>
             s\<lparr>infos := (infos s)(k \<mapsto> ci\<lparr>pages := set_add pageId (pages ci)\<rparr>),
               pageOwnership := (pageOwnership s)(pageId \<mapsto> clientId ci)\<rparr>
         | _ \<Rightarrow> s)
      else s)"

text \<open>\<^verbatim>\<open>outputHandler\<close> of the closure for socket \<open>k\<close>, on one chunk of serve output.\<close>

definition outputHandler :: "nat \<Rightarrow> bytes \<Rightarrow> relay \<Rightarrow> relay" where
  "outputHandler k d s =
     (case infos s k of
        None \<Rightarrow> s
      | Some ci \<Rightarrow>
          if closed ci then s
          else
            (case match_id d of
               None \<Rightarrow> s
             | Some messageId \<Rightarrow>
                 if messageIdMap s messageId = Some (clientId ci) then
                   let s1 = socket_write k d s;
                       s2 = s1\<lparr>messageIdMap := (messageIdMap s1)(messageId := None)\<rparr>;
                       s3 = s2\<lparr>infos := (infos s2)(k \<mapsto>
                                 ci\<lparr>messageIds := set_delete messageId (messageIds ci)\<rparr>)\<rparr>
                   in track_page k d s3
                 else s))"

text \<open>
  A \<^verbatim>\<open>'data'\<close> event of the serve process's standard output: every registered
  \<^verbatim>\<open>outputHandler\<close> runs on the chunk, in registration order. (The listener that
  \<^verbatim>\<open>startServer\<close> registers first only logs.)
\<close>

definition stdout_data :: "bytes \<Rightarrow> relay \<Rightarrow> relay" where
  "stdout_data d s = fold (\<lambda>k. outputHandler k d) (stdoutListeners s) s"

text \<open>One round of \<^verbatim>\<open>clientInfo.pages.forEach\<close> in \<^verbatim>\<open>cleanup\<close>.\<close>

definition close_page :: "string \<Rightarrow> relay \<Rightarrow> relay" where
  "close_page pageId s =
     (let s1 = writeToServe (closePageCmd (nextMessageId s) pageId)
                 (s\<lparr>nextMessageId := nextMessageId s + 1\<rparr>)
      in s1\<lparr>pageOwnership := (pageOwnership s1)(pageId := None)\<rparr>)"

text \<open>One round of \<^verbatim>\<open>clientInfo.messageIds.forEach\<close> in \<^verbatim>\<open>cleanup\<close>.\<close>

definition forget_message :: "nat \<Rightarrow> relay \<Rightarrow> relay" where
  "forget_message msgId s = s\<lparr>messageIdMap := (messageIdMap s)(msgId := None)\<rparr>"

text \<open>\<^verbatim>\<open>cleanup\<close> of the closure for socket \<open>k\<close>, the handler of \<^verbatim>\<open>'end'\<close> and \<^verbatim>\<open>'error'\<close>.\<close>

definition cleanup :: "nat \<Rightarrow> relay \<Rightarrow> relay" where
  "cleanup k s =
     (case infos s k of
        None \<Rightarrow> s
      | Some ci \<Rightarrow>
          if closed ci then s
          else
            let s1 = s\<lparr>infos := (infos s)(k \<mapsto> ci\<lparr>closed := True\<rparr>),
                       clients := (clients s)(clientId ci := None)\<rparr>;
                s2 = fold close_page (pages ci) s1;
                s3 = fold forget_message (messageIds ci) s2;
                s4 = s3\<lparr>clientMessageIds := (clientMessageIds s3)(clientId ci := None),
                       stdoutListeners := removeAll k (stdoutListeners s3)\<rparr>
            in if destroyed (sockets s4 k) then s4 else socket_destroy k s4)"

subsection \<open>The relay as a machine\<close>

text \<open>
  What can happen to a running server: a connection's first chunk arrives (with the
  identifier drawn for the connection), a later chunk arrives, a socket ends or fails, the
  serve process prints a chunk, a write to the serve process completes.
\<close>

datatype event =
    FirstData clientId nat bytes
  | ClientData nat bytes
  | SocketClosed nat
  | ServeOutput bytes
  | WriteDone "error option"

fun step :: "string \<Rightarrow> event \<Rightarrow> relay \<Rightarrow> relay" where
  "step token (FirstData cid k d) s = first_data token cid k d s"
| "step token (ClientData k d) s = client_data k d s"
| "step token (SocketClosed k) s = cleanup k s"
| "step token (ServeOutput d) s = stdout_data d s"
| "step token (WriteDone err) s = fst (write_callback err s)"

text \<open>
  An event the runtime can deliver in a state. A socket object is new when its first
  chunk arrives, and the identifier drawn for it (eight random bytes) is taken to differ
  from those of the sessions still open. A socket delivers chunks to its closure only
  while the session is open: \<^verbatim>\<open>cleanup\<close> destroys the socket.
\<close>

fun deliverable :: "event \<Rightarrow> relay \<Rightarrow> bool" where
  "deliverable (FirstData cid k d) s \<longleftrightarrow> infos s k = None \<and> clients s cid = None"
| "deliverable (ClientData k d) s \<longleftrightarrow> k \<in> set (stdoutListeners s)"
| "deliverable (SocketClosed k) s \<longleftrightarrow> True"
| "deliverable (ServeOutput d) s \<longleftrightarrow> True"
| "deliverable (WriteDone err) s \<longleftrightarrow> pendingWrites s \<noteq> []"

inductive reachable :: "string \<Rightarrow> stdin \<Rightarrow> relay \<Rightarrow> bool" for token mode where
  start: "reachable token mode (spawn mode constructor)"
| next_event: "reachable token mode s \<Longrightarrow> deliverable e s \<Longrightarrow> reachable token mode (step token e s)"

text \<open>
  The sessions are well formed: every registered \<^verbatim>\<open>outputHandler\<close> belongs to an open
  session that is registered under its own identifier, and every entry of the two global
  maps belongs to such a session and is in that session's own set.
\<close>

definition open_session :: "relay \<Rightarrow> nat \<Rightarrow> clientInfo \<Rightarrow> bool" where
  "open_session s k ci \<longleftrightarrow>
     k \<in> set (stdoutListeners s) \<and> infos s k = Some ci \<and> \<not> closed ci
     \<and> clients s (clientId ci) = Some k"

definition wf :: "relay \<Rightarrow> bool" where
  "wf s \<longleftrightarrow>
     distinct (stdoutListeners s)
     \<and> (\<forall>k \<in> set (stdoutListeners s). \<exists>ci. open_session s k ci)
     \<and> (\<forall>k ci. infos s k = Some ci \<and> \<not> closed ci \<longrightarrow> k \<in> set (stdoutListeners s))
     \<and> (\<forall>cid k. clients s cid = Some k \<longrightarrow> (\<exists>ci. open_session s k ci \<and> clientId ci = cid))
     \<and> (\<forall>m cid. messageIdMap s m = Some cid \<longrightarrow>
           (\<exists>k ci. open_session s k ci \<and> clientId ci = cid \<and> m \<in> set (messageIds ci)))
     \<and> (\<forall>p cid. pageOwnership s p = Some cid \<longrightarrow>
           (\<exists>k ci. open_session s k ci \<and> clientId ci = cid \<and> p \<in> set (pages ci)))"

text \<open>
  The part of the state that belongs to the write serializer and to the serve process's
  standard input, and the release requests for a list of pages, numbered from \<open>n\<close>.
\<close>

definition serializer ::
  "relay \<Rightarrow> item list \<times> bool \<times> bytes list \<times> item list \<times> (nat \<Rightarrow> outcome) \<times> nat" where
  "serializer s =
     (writeQueue s, isWriting s, stdinWrites s, pendingWrites s, promises s, nextPromise s)"

fun release_requests :: "nat \<Rightarrow> string list \<Rightarrow> bytes list" where
  "release_requests n [] = []"
| "release_requests n (p # ps) = closePageCmd n p # release_requests (Suc n) ps"

text \<open>The condition under which the \<^verbatim>\<open>outputHandler\<close> of socket \<open>k\<close> writes a chunk to its socket.\<close>

definition delivers :: "nat \<Rightarrow> bytes \<Rightarrow> relay \<Rightarrow> bool" where
  "delivers k d s \<longleftrightarrow>
     (\<exists>ci m. infos s k = Some ci \<and> \<not> closed ci \<and> match_id d = Some m
        \<and> messageIdMap s m = Some (clientId ci))"

text \<open>
  A sample session: the server runs with a piped standard input and the token
  \<open>secret\<close>; a client connects, asks for a page under the request identifier 7, and the
  serve process answers. A second request carries a string identifier.
\<close>

definition create_req :: bytes where
  "create_req = ''{'' @ json_string ''id'' @ '':7,'' @ json_string ''method'' @ '':''
     @ json_string ''createPage'' @ ''}''"

definition create_resp :: bytes where
  "create_resp = ''{'' @ json_string ''id'' @ '':7,'' @ json_string ''result'' @ '':{''
     @ json_string ''pageId'' @ '':'' @ json_string ''h1'' @ '',''
     @ json_string ''via'' @ '':'' @ json_string ''createPage'' @ ''}}''"

definition string_id_req :: bytes where
  "string_id_req = ''{'' @ json_string ''id'' @ '':'' @ json_string ''abc'' @ '',''
     @ json_string ''method'' @ '':'' @ json_string ''ping'' @ ''}''"

definition string_id_resp :: bytes where
  "string_id_resp = ''{'' @ json_string ''id'' @ '':'' @ json_string ''abc'' @ '',''
     @ json_string ''result'' @ '':{}}''"

definition session_opened :: relay where
  "session_opened = step ''secret'' (FirstData ''c1'' 0 ''secret'') (spawn StdinPipe constructor)"

definition request_sent :: relay where
  "request_sent = step ''secret'' (ClientData 0 create_req) session_opened"


section \<open>The broadcast relay: reflector\<close>

text \<open>
  A connection object (\<^verbatim>\<open>ClientConnection\<close>) is shared between the closure of its
  handlers and the map \<^verbatim>\<open>ClientConnections\<close>, so the objects live in a store indexed by
  references and the map holds references. The \<^verbatim>\<open>ws\<close> field is what was passed to
  \<^verbatim>\<open>ws.send\<close>, in order, and whether \<^verbatim>\<open>ws.close()\<close> was called. Dates are numbers.
\<close>

record websocket =
  sent :: "bytes list"
  close_called :: bool

record ClientConnection =
  conn_id :: string
  subdomain :: string
  ws :: websocket
  connectedAt :: nat
  lastPing :: nat
  authenticated :: bool

record RemoteClient =
  rc_clientId :: string
  rc_subdomain :: string
  rc_connected :: bool
  rc_connectedAt :: nat

text \<open>
  The three module-level maps. \<^verbatim>\<open>ClientConnections\<close> is iterated, so it keeps its
  insertion order: \<^verbatim>\<open>Map.prototype.set\<close> is \<open>AList.update\<close> (in place for a key that
  is present, at the end otherwise) and \<^verbatim>\<open>delete\<close> is \<open>AList.delete\<close>.
\<close>

record reflector =
  conns :: "nat \<rightharpoonup> ClientConnection"
  ClientConnections :: "(string \<times> nat) list"
  RemoteClients :: "string \<rightharpoonup> RemoteClient"
  SubdomainToConnection :: "string \<rightharpoonup> string"

definition reflector_init :: reflector where
  "reflector_init =
     \<lparr>conns = Map.empty, ClientConnections = [], RemoteClients = Map.empty,
      SubdomainToConnection = Map.empty\<rparr>"

subsection \<open>Token validation\<close>

text \<open>
  The value of \<^verbatim>\<open>data.token\<close> (or of the \<^verbatim>\<open>token\<close> argument), as far as the code
  looks at it: falsy (absent, \<^verbatim>\<open>null\<close>, \<^verbatim>\<open>false\<close>, \<^verbatim>\<open>0\<close>, the empty string); a
  non-empty string; a truthy non-string value that \<^verbatim>\<open>Buffer.from\<close> turns into bytes (an
  array); a truthy value on which \<^verbatim>\<open>Buffer.from\<close> throws (a number, \<^verbatim>\<open>true\<close>, a plain
  object).
\<close>

datatype tokenval = Falsy | TokenString string | TokenBytes bytes | TokenUnbufferable

definition truthy :: "tokenval \<Rightarrow> bool" where
  "truthy t \<longleftrightarrow> (case t of Falsy \<Rightarrow> False | TokenString str \<Rightarrow> str \<noteq> [] | _ \<Rightarrow> True)"

definition buffer_from :: "tokenval \<Rightarrow> error + bytes" where
  "buffer_from t =
     (case t of
        TokenString str \<Rightarrow> Inr str
      | TokenBytes b \<Rightarrow> Inr b
      | _ \<Rightarrow> Inl TypeError)"

text \<open>\<^verbatim>\<open>digest('hex')\<close> of a SHA-256 value: 64 lower-case hexadecimal digits.\<close>

definition hex_digest :: "256 word \<Rightarrow> string" where
  "hex_digest w = map (\<lambda>i. hex_char (unat (take_bit 4 (drop_bit (4 * (63 - i)) w)))) [0..<64]"

text \<open>\<^verbatim>\<open>crypto.timingSafeEqual\<close>: buffers of different byte lengths are a RangeError.\<close>

definition timingSafeEqual :: "bytes \<Rightarrow> bytes \<Rightarrow> error + bool" where
  "timingSafeEqual a b = (if length a \<noteq> length b then Inl RangeError else Inr (a = b))"

text \<open>
  \<^verbatim>\<open>validateToken\<close>. The hash function and \<^verbatim>\<open>AUTH_SECRET\<close> (read from the environment
  or drawn at start) are parameters.
\<close>

definition validateToken ::
  "(string \<Rightarrow> 256 word) \<Rightarrow> string \<Rightarrow> tokenval \<Rightarrow> string \<Rightarrow> error + bool" where
  "validateToken sha256 secret token sub =
     (if \<not> truthy token then Inr False
      else
        let expectedToken = hex_digest (sha256 (sub @ '':'' @ secret))
        in (case buffer_from token of
              Inl e \<Rightarrow> Inl e
            | Inr buf \<Rightarrow> timingSafeEqual buf expectedToken))"

subsection \<open>Connections\<close>

text \<open>\<^verbatim>\<open>getSubdomainFromHost\<close>: the part of the host before its first dot.\<close>

definition getSubdomainFromHost :: "string option \<Rightarrow> string option" where
  "getSubdomainFromHost host =
     (case host of
        None \<Rightarrow> None
      | Some h \<Rightarrow>
          if h = [] then None
          else if CHR ''.'' \<notin> set h then None
          else if takeWhile (\<lambda>c. c \<noteq> CHR ''.'') h = ''localhost''
                  \<or> takeWhile (\<lambda>c. c \<noteq> CHR ''.'') h = ''www'' then None
          else Some (takeWhile (\<lambda>c. c \<noteq> CHR ''.'') h))"

text \<open>
  The callback of \<^verbatim>\<open>c.upgrade\<close>: a new connection object at reference \<open>r\<close>, with the
  identifier \<open>cid\<close> drawn for it, registered in both maps.
\<close>

definition upgrade :: "nat \<Rightarrow> string \<Rightarrow> string \<Rightarrow> nat \<Rightarrow> reflector \<Rightarrow> reflector" where
  "upgrade r cid sub now s =
     s\<lparr>conns := (conns s)(r \<mapsto>
          \<lparr>conn_id = cid, subdomain = sub, ws = \<lparr>sent = [], close_called = False\<rparr>,
           connectedAt = now, lastPing = now, authenticated = False\<rparr>),
       ClientConnections := AList.update cid r (ClientConnections s),
       SubdomainToConnection := (SubdomainToConnection s)(sub \<mapsto> cid)\<rparr>"

text \<open>
  The route \<^verbatim>\<open>/connect\<close>. An empty subdomain is falsy and is refused like a missing one.
\<close>

definition connect :: "string option \<Rightarrow> nat \<Rightarrow> string \<Rightarrow> nat \<Rightarrow> reflector \<Rightarrow> reflector" where
  "connect host r cid now s =
     (case getSubdomainFromHost host of
        None \<Rightarrow> s
      | Some sub \<Rightarrow> if sub = [] then s else upgrade r cid sub now s)"

definition ws_send :: "nat \<Rightarrow> bytes \<Rightarrow> reflector \<Rightarrow> reflector" where
  "ws_send r m s =
     (case conns s r of
        None \<Rightarrow> s
      | Some c \<Rightarrow> s\<lparr>conns := (conns s)(r \<mapsto> c\<lparr>ws := (ws c)\<lparr>sent := sent (ws c) @ [m]\<rparr>\<rparr>)\<rparr>)"

definition ws_close :: "nat \<Rightarrow> reflector \<Rightarrow> reflector" where
  "ws_close r s =
     (case conns s r of
        None \<Rightarrow> s
      | Some c \<Rightarrow> s\<lparr>conns := (conns s)(r \<mapsto> c\<lparr>ws := (ws c)\<lparr>close_called := True\<rparr>\<rparr>)\<rparr>)"

text \<open>
  What \<^verbatim>\<open>JSON.parse(message)\<close> gives, as far as the handler looks at it: a SyntaxError;
  \<^verbatim>\<open>null\<close>, on which reading \<^verbatim>\<open>data.type\<close> is a TypeError; or a value with its
  \<^verbatim>\<open>type\<close> (when that is a string) and its \<^verbatim>\<open>token\<close>. The parser is a parameter of the
  handler.
\<close>

datatype parsed = ParseError | NullValue | Value "string option" tokenval

text \<open>The four replies, as \<^verbatim>\<open>JSON.stringify\<close> writes them.\<close>

definition auth_ok :: bytes where
  "auth_ok = ''{'' @ json_string ''type'' @ '':'' @ json_string ''auth'' @ '',''
     @ json_string ''success'' @ '':true}''"

definition auth_failed :: bytes where
  "auth_failed = ''{'' @ json_string ''type'' @ '':'' @ json_string ''auth'' @ '',''
     @ json_string ''success'' @ '':false,'' @ json_string ''error'' @ '':''
     @ json_string ''Invalid token'' @ ''}''"

definition not_authenticated :: bytes where
  "not_authenticated = ''{'' @ json_string ''error'' @ '':'' @ json_string ''Not authenticated'' @ ''}''"

definition pong :: bytes where
  "pong = ''{'' @ json_string ''type'' @ '':'' @ json_string ''pong'' @ ''}''"

text \<open>One round of the loop over \<^verbatim>\<open>ClientConnections\<close> that relays a message.\<close>

definition relay_to :: "string \<Rightarrow> string \<Rightarrow> bytes \<Rightarrow> string \<times> nat \<Rightarrow> reflector \<Rightarrow> reflector" where
  "relay_to cid sub m entry s =
     (case conns s (snd entry) of
        None \<Rightarrow> s
      | Some client \<Rightarrow>
          if conn_id client \<noteq> cid \<and> subdomain client = sub \<and> authenticated client
          then ws_send (snd entry) m s else s)"

text \<open>
  The \<^verbatim>\<open>ws.on('message', ...)\<close> handler of the connection at reference \<open>r\<close>. Every
  exception inside it is caught and logged, which leaves the state as it was when the
  exception was raised.
\<close>

definition on_message ::
  "(string \<Rightarrow> 256 word) \<Rightarrow> string \<Rightarrow> (bytes \<Rightarrow> parsed) \<Rightarrow> nat \<Rightarrow> nat \<Rightarrow> bytes
     \<Rightarrow> reflector \<Rightarrow> reflector" where
  "on_message sha256 secret parse now r message s =
     (case conns s r of
        None \<Rightarrow> s
      | Some connection \<Rightarrow>
          (case parse message of
             ParseError \<Rightarrow> s
           | NullValue \<Rightarrow> s
           | Value ty token \<Rightarrow>
               if ty = Some ''auth'' \<and> truthy token then
                 (case validateToken sha256 secret token (subdomain connection) of
                    Inl e \<Rightarrow> s
                  | Inr True \<Rightarrow>
                      ws_send r auth_ok
                        (s\<lparr>conns := (conns s)(r \<mapsto> connection\<lparr>authenticated := True\<rparr>)\<rparr>)
                  | Inr False \<Rightarrow> ws_close r (ws_send r auth_failed s))
               else if \<not> authenticated connection then ws_send r not_authenticated s
               else if ty = Some ''ping'' then
                 ws_send r pong (s\<lparr>conns := (conns s)(r \<mapsto> connection\<lparr>lastPing := now\<rparr>)\<rparr>)
               else
                 (let s1 = s\<lparr>conns := (conns s)(r \<mapsto> connection\<lparr>lastPing := now\<rparr>)\<rparr>
                  in fold (relay_to (conn_id connection) (subdomain connection) message)
                       (ClientConnections s1) s1)))"

text \<open>The \<^verbatim>\<open>ws.on('close', ...)\<close> handler of the connection at reference \<open>r\<close>.\<close>

definition on_close :: "nat \<Rightarrow> reflector \<Rightarrow> reflector" where
  "on_close r s =
     (case conns s r of
        None \<Rightarrow> s
      | Some connection \<Rightarrow>
          s\<lparr>ClientConnections := AList.delete (conn_id connection) (ClientConnections s),
            SubdomainToConnection := (SubdomainToConnection s)(subdomain connection := None),
            RemoteClients := (RemoteClients s)(conn_id connection := None)\<rparr>)"

text \<open>
  The connection at \<open>r\<close> is registered: the map holds it under its own identifier. The
  map is consistent when every entry holds a connection under that connection's
  identifier, once.
\<close>

definition registered :: "reflector \<Rightarrow> nat \<Rightarrow> bool" where
  "registered s r \<longleftrightarrow> r \<in> snd ` set (ClientConnections s)"

definition consistent :: "reflector \<Rightarrow> bool" where
  "consistent s \<longleftrightarrow>
     distinct (map fst (ClientConnections s))
     \<and> (\<forall>(key, r) \<in> set (ClientConnections s). \<exists>c. conns s r = Some c \<and> conn_id c = key)"

text \<open>What one run of the relaying loop does to a connection object.\<close>

definition relayed :: "string \<Rightarrow> string \<Rightarrow> bytes \<Rightarrow> ClientConnection \<Rightarrow> ClientConnection" where
  "relayed cid sub m c =
     (if conn_id c \<noteq> cid \<and> subdomain c = sub \<and> authenticated c
      then c\<lparr>ws := (ws c)\<lparr>sent := sent (ws c) @ [m]\<rparr>\<rparr> else c)"

text \<open>
  What a connection has been sent, and the connections a relayed message from the
  connection \<open>c\<close> at reference \<open>r\<close> is meant for: registered, on the sender's channel,
  authenticated, and not the sender.
\<close>

definition sent_to :: "reflector \<Rightarrow> nat \<Rightarrow> bytes list" where
  "sent_to s r = (case conns s r of None \<Rightarrow> [] | Some c \<Rightarrow> sent (ws c))"

definition recipient :: "reflector \<Rightarrow> nat \<Rightarrow> ClientConnection \<Rightarrow> nat \<Rightarrow> bool" where
  "recipient s r c r' \<longleftrightarrow>
     registered s r' \<and> r' \<noteq> r
     \<and> (case conns s r' of
          None \<Rightarrow> False
        | Some c' \<Rightarrow> subdomain c' = subdomain c \<and> authenticated c')"

text \<open>
  A sample run: a hash function that is constantly zero, whose digest is 64 zeros; a
  parser that knows three messages and takes anything else for malformed; two connections on the channel \<open>room\<close> that have both
  sent the valid token.
\<close>

definition sha_stub :: "string \<Rightarrow> 256 word" where
  "sha_stub x = 0"

definition auth_msg :: bytes where
  "auth_msg = ''{'' @ json_string ''type'' @ '':'' @ json_string ''auth'' @ '',''
     @ json_string ''token'' @ '':'' @ json_string (replicate 64 CHR ''0'') @ ''}''"

definition ping_msg :: bytes where
  "ping_msg = ''{'' @ json_string ''type'' @ '':'' @ json_string ''ping'' @ ''}''"

definition chat_msg :: bytes where
  "chat_msg = ''{'' @ json_string ''type'' @ '':'' @ json_string ''chat'' @ ''}''"

definition parse_stub :: "bytes \<Rightarrow> parsed" where
  "parse_stub m =
     (if m = auth_msg then Value (Some ''auth'') (TokenString (replicate 64 CHR ''0''))
      else if m = ping_msg then Value (Some ''ping'') Falsy
      else if m = chat_msg then Value (Some ''chat'') Falsy
      else ParseError)"

definition both_connected :: reflector where
  "both_connected = upgrade 1 ''idB'' ''room'' 6 (upgrade 0 ''idA'' ''room'' 5 reflector_init)"

definition both_authenticated :: reflector where
  "both_authenticated =
     on_message sha_stub ''s3cret'' parse_stub 8 1 auth_msg
       (on_message sha_stub ''s3cret'' parse_stub 7 0 auth_msg both_connected)"

section \<open>Properties of the write serializer\<close>



lemma settle_fields [simp]:
  "writeQueue (settle p out s) = writeQueue s"
  "isWriting (settle p out s) = isWriting s"
  "serveProcess (settle p out s) = serveProcess s"
  "stdinWrites (settle p out s) = stdinWrites s"
  "pendingWrites (settle p out s) = pendingWrites s"
  by (simp_all add: settle_def)

lemma processWriteQueue_serveProcess [simp]:
  "serveProcess (fst (processWriteQueue s)) = serveProcess s"
  by (simp add: processWriteQueue_def Let_def split: list.splits option.splits stdin.splits)

lemma processWriteQueue_single_flight:
  "single_flight s \<Longrightarrow> single_flight (fst (processWriteQueue s))"
  by (auto simp: processWriteQueue_def single_flight_def Let_def split: list.splits option.splits stdin.splits)

lemma processWriteQueue_backlog:
  "serveProcess s \<noteq> Some StdinNull \<Longrightarrow> backlog (fst (processWriteQueue s)) = backlog s"
  by (auto simp: processWriteQueue_def backlog_def Let_def split: list.splits option.splits stdin.splits)

lemma processWriteQueue_null:
  "serveProcess s = Some StdinNull \<Longrightarrow> stdinWrites (fst (processWriteQueue s)) = stdinWrites s"
  by (auto simp: processWriteQueue_def Let_def split: list.splits option.splits stdin.splits)

lemma writeToServe_eq:
  "writeToServe d s =
     (let p = nextPromise s;
          r = processWriteQueue (s\<lparr>nextPromise := p + 1, writeQueue := writeQueue s @ [\<lparr>data = d, promise = p\<rparr>]\<rparr>)
      in case snd r of None \<Rightarrow> fst r | Some e \<Rightarrow> settle p (Rejected e) (fst r))"
  by (simp add: writeToServe_def Let_def split: prod.splits option.splits)

lemma writeToServe_serveProcess [simp]: "serveProcess (writeToServe d s) = serveProcess s"
  by (simp add: writeToServe_eq Let_def split: option.splits)

lemma writeToServe_single_flight: "single_flight s \<Longrightarrow> single_flight (writeToServe d s)"
proof -
  assume a: "single_flight s"
  let ?s1 = "s\<lparr>nextPromise := nextPromise s + 1, writeQueue := writeQueue s @ [\<lparr>data = d, promise = nextPromise s\<rparr>]\<rparr>"
  have "single_flight ?s1" using a by (simp add: single_flight_def)
  then have "single_flight (fst (processWriteQueue ?s1))" by (rule processWriteQueue_single_flight)
  then show ?thesis
    by (simp add: writeToServe_eq Let_def single_flight_def split: option.splits)
qed

lemma writeToServe_backlog:
  assumes "serveProcess s \<noteq> Some StdinNull"
  shows "backlog (writeToServe d s) = backlog s @ [d]"
proof -
  let ?s1 = "s\<lparr>nextPromise := nextPromise s + 1, writeQueue := writeQueue s @ [\<lparr>data = d, promise = nextPromise s\<rparr>]\<rparr>"
  have "backlog (fst (processWriteQueue ?s1)) = backlog ?s1"
    using assms by (intro processWriteQueue_backlog) simp
  moreover have "backlog ?s1 = backlog s @ [d]" by (simp add: backlog_def)
  ultimately show ?thesis
    by (simp add: writeToServe_eq Let_def backlog_def split: option.splits)
qed

lemma writeToServe_null:
  "serveProcess s = Some StdinNull \<Longrightarrow> stdinWrites (writeToServe d s) = stdinWrites s"
  using processWriteQueue_null [of "s\<lparr>nextPromise := nextPromise s + 1, writeQueue := writeQueue s @ [\<lparr>data = d, promise = nextPromise s\<rparr>]\<rparr>"]
  by (simp add: writeToServe_eq Let_def split: option.splits)

lemma write_callback_serveProcess [simp]:
  "serveProcess (fst (write_callback err s)) = serveProcess s"
  by (simp add: write_callback_def Let_def split: list.splits)

lemma write_callback_single_flight:
  "single_flight s \<Longrightarrow> single_flight (fst (write_callback err s))"
proof (cases "pendingWrites s")
  case Nil
  assume "single_flight s"
  with Nil show ?thesis by (simp add: write_callback_def)
next
  case (Cons it rest)
  assume a: "single_flight s"
  let ?s2 = "settle (promise it) (case err of Some e \<Rightarrow> Rejected e | None \<Rightarrow> Resolved)
               (s\<lparr>pendingWrites := rest, isWriting := False\<rparr>)"
  have "single_flight ?s2" using a Cons by (simp add: single_flight_def)
  then have "single_flight (fst (processWriteQueue ?s2))" by (rule processWriteQueue_single_flight)
  with Cons show ?thesis by (simp add: write_callback_def Let_def)
qed

lemma write_callback_backlog:
  assumes "serveProcess s \<noteq> Some StdinNull"
  shows "backlog (fst (write_callback err s)) = backlog s"
proof (cases "pendingWrites s")
  case Nil
  then show ?thesis by (simp add: write_callback_def)
next
  case (Cons it rest)
  let ?s2 = "settle (promise it) (case err of Some e \<Rightarrow> Rejected e | None \<Rightarrow> Resolved)
               (s\<lparr>pendingWrites := rest, isWriting := False\<rparr>)"
  have "backlog (fst (processWriteQueue ?s2)) = backlog ?s2"
    using assms by (intro processWriteQueue_backlog) simp
  moreover have "backlog ?s2 = backlog s" by (simp add: backlog_def)
  ultimately show ?thesis using Cons by (simp add: write_callback_def Let_def)
qed

lemma write_callback_null:
  "serveProcess s = Some StdinNull \<Longrightarrow> stdinWrites (fst (write_callback err s)) = stdinWrites s"
  by (cases "pendingWrites s")
     (simp_all add: write_callback_def Let_def processWriteQueue_null)

lemma wstep_serveProcess [simp]: "serveProcess (wstep e s) = serveProcess s"
  by (cases e) simp_all

lemma wstep_single_flight: "single_flight s \<Longrightarrow> single_flight (wstep e s)"
  by (cases e) (simp_all add: writeToServe_single_flight write_callback_single_flight)

lemma wrun_single_flight: "single_flight s \<Longrightarrow> single_flight (wrun evs s)"
  unfolding wrun_def by (induction evs arbitrary: s) (simp_all add: wstep_single_flight)

lemma wrun_backlog:
  "serveProcess s \<noteq> Some StdinNull \<Longrightarrow> backlog (wrun evs s) = backlog s @ enqueued evs"
  unfolding wrun_def
proof (induction evs arbitrary: s)
  case Nil
  then show ?case by simp
next
  case (Cons e evs)
  then show ?case
    by (cases e) (simp_all add: writeToServe_backlog write_callback_backlog)
qed

lemma wrun_null:
  "serveProcess s = Some StdinNull \<Longrightarrow> stdinWrites (wrun evs s) = stdinWrites s"
  unfolding wrun_def
proof (induction evs arbitrary: s)
  case Nil
  then show ?case by simp
next
  case (Cons e evs)
  then show ?case
    by (cases e) (simp_all add: writeToServe_null write_callback_null)
qed

lemma wrun_single_flight_fifo:
  assumes "idle s0"
  shows "length (pendingWrites (wrun evs s0)) \<le> 1
       \<and> prefix (stdinWrites (wrun evs s0)) (enqueued evs)
       \<and> (serveProcess s0 \<noteq> Some StdinNull \<longrightarrow>
            stdinWrites (wrun evs s0) @ map data (writeQueue (wrun evs s0)) = enqueued evs)"
proof -
  have "single_flight s0" using assms by (simp add: idle_def single_flight_def)
  then have sf: "single_flight (wrun evs s0)" by (rule wrun_single_flight)
  have b0: "backlog s0 = []" using assms by (simp add: idle_def backlog_def)
  have eq: "backlog (wrun evs s0) = enqueued evs" if "serveProcess s0 \<noteq> Some StdinNull"
    using wrun_backlog [OF that, of evs] b0 by simp
  have pre: "prefix (stdinWrites (wrun evs s0)) (enqueued evs)"
  proof (cases "serveProcess s0 = Some StdinNull")
    case True
    then show ?thesis using wrun_null [OF True, of evs] assms by (simp add: idle_def)
  next
    case False
    from eq [OF False]
    have "enqueued evs = stdinWrites (wrun evs s0) @ map data (writeQueue (wrun evs s0))"
      by (simp add: backlog_def)
    then show ?thesis by (rule prefixI)
  qed
  from sf pre eq show ?thesis by (simp add: single_flight_def backlog_def)
qed





section \<open>What the handlers leave unchanged\<close>

lemma settle_frame [simp]:
  "clients (settle p out s) = clients s"
  "messageIdMap (settle p out s) = messageIdMap s"
  "pageOwnership (settle p out s) = pageOwnership s"
  "clientMessageIds (settle p out s) = clientMessageIds s"
  "nextMessageId (settle p out s) = nextMessageId s"
  "infos (settle p out s) = infos s"
  "sockets (settle p out s) = sockets s"
  "stdoutListeners (settle p out s) = stdoutListeners s"
  "nextPromise (settle p out s) = nextPromise s"
  by (simp_all add: settle_def)

lemma processWriteQueue_frame [simp]:
  "clients (fst (processWriteQueue s)) = clients s"
  "messageIdMap (fst (processWriteQueue s)) = messageIdMap s"
  "pageOwnership (fst (processWriteQueue s)) = pageOwnership s"
  "clientMessageIds (fst (processWriteQueue s)) = clientMessageIds s"
  "nextMessageId (fst (processWriteQueue s)) = nextMessageId s"
  "infos (fst (processWriteQueue s)) = infos s"
  "sockets (fst (processWriteQueue s)) = sockets s"
  "stdoutListeners (fst (processWriteQueue s)) = stdoutListeners s"
  "promises (fst (processWriteQueue s)) = promises s"
  "nextPromise (fst (processWriteQueue s)) = nextPromise s"
  by (simp_all add: processWriteQueue_def Let_def split: list.splits option.splits stdin.splits)

lemma writeToServe_frame [simp]:
  "clients (writeToServe d s) = clients s"
  "messageIdMap (writeToServe d s) = messageIdMap s"
  "pageOwnership (writeToServe d s) = pageOwnership s"
  "clientMessageIds (writeToServe d s) = clientMessageIds s"
  "nextMessageId (writeToServe d s) = nextMessageId s"
  "infos (writeToServe d s) = infos s"
  "sockets (writeToServe d s) = sockets s"
  "stdoutListeners (writeToServe d s) = stdoutListeners s"
  "nextPromise (writeToServe d s) = Suc (nextPromise s)"
  by (simp_all add: writeToServe_eq Let_def split: option.splits)

lemma write_callback_frame [simp]:
  "clients (fst (write_callback err s)) = clients s"
  "messageIdMap (fst (write_callback err s)) = messageIdMap s"
  "pageOwnership (fst (write_callback err s)) = pageOwnership s"
  "clientMessageIds (fst (write_callback err s)) = clientMessageIds s"
  "nextMessageId (fst (write_callback err s)) = nextMessageId s"
  "infos (fst (write_callback err s)) = infos s"
  "sockets (fst (write_callback err s)) = sockets s"
  "stdoutListeners (fst (write_callback err s)) = stdoutListeners s"
  "nextPromise (fst (write_callback err s)) = nextPromise s"
  by (simp_all add: write_callback_def Let_def split: list.splits)

lemma close_page_frame [simp]:
  "clients (close_page p s) = clients s"
  "messageIdMap (close_page p s) = messageIdMap s"
  "clientMessageIds (close_page p s) = clientMessageIds s"
  "infos (close_page p s) = infos s"
  "sockets (close_page p s) = sockets s"
  "stdoutListeners (close_page p s) = stdoutListeners s"
  "serveProcess (close_page p s) = serveProcess s"
  "nextMessageId (close_page p s) = Suc (nextMessageId s)"
  "pageOwnership (close_page p s) = (pageOwnership s)(p := None)"
  by (simp_all add: close_page_def Let_def)

lemma fold_close_page_frame [simp]:
  "clients (fold close_page ps s) = clients s"
  "messageIdMap (fold close_page ps s) = messageIdMap s"
  "clientMessageIds (fold close_page ps s) = clientMessageIds s"
  "infos (fold close_page ps s) = infos s"
  "sockets (fold close_page ps s) = sockets s"
  "stdoutListeners (fold close_page ps s) = stdoutListeners s"
  "serveProcess (fold close_page ps s) = serveProcess s"
  "nextMessageId (fold close_page ps s) = nextMessageId s + length ps"
  by (induction ps arbitrary: s) simp_all

lemma fold_close_page_pageOwnership:
  "pageOwnership (fold close_page ps s) p = (if p \<in> set ps then None else pageOwnership s p)"
  by (induction ps arbitrary: s) simp_all

lemma forget_message_frame [simp]:
  "clients (forget_message m s) = clients s"
  "pageOwnership (forget_message m s) = pageOwnership s"
  "clientMessageIds (forget_message m s) = clientMessageIds s"
  "infos (forget_message m s) = infos s"
  "sockets (forget_message m s) = sockets s"
  "stdoutListeners (forget_message m s) = stdoutListeners s"
  "serveProcess (forget_message m s) = serveProcess s"
  "nextMessageId (forget_message m s) = nextMessageId s"
  "writeQueue (forget_message m s) = writeQueue s"
  "isWriting (forget_message m s) = isWriting s"
  "stdinWrites (forget_message m s) = stdinWrites s"
  "pendingWrites (forget_message m s) = pendingWrites s"
  "promises (forget_message m s) = promises s"
  "nextPromise (forget_message m s) = nextPromise s"
  "messageIdMap (forget_message m s) = (messageIdMap s)(m := None)"
  by (simp_all add: forget_message_def)

lemma fold_forget_message_frame [simp]:
  "clients (fold forget_message ms s) = clients s"
  "pageOwnership (fold forget_message ms s) = pageOwnership s"
  "clientMessageIds (fold forget_message ms s) = clientMessageIds s"
  "infos (fold forget_message ms s) = infos s"
  "sockets (fold forget_message ms s) = sockets s"
  "stdoutListeners (fold forget_message ms s) = stdoutListeners s"
  "serveProcess (fold forget_message ms s) = serveProcess s"
  "nextMessageId (fold forget_message ms s) = nextMessageId s"
  "writeQueue (fold forget_message ms s) = writeQueue s"
  "isWriting (fold forget_message ms s) = isWriting s"
  "stdinWrites (fold forget_message ms s) = stdinWrites s"
  "pendingWrites (fold forget_message ms s) = pendingWrites s"
  "promises (fold forget_message ms s) = promises s"
  "nextPromise (fold forget_message ms s) = nextPromise s"
  by (induction ms arbitrary: s) simp_all

lemma fold_forget_message_messageIdMap:
  "messageIdMap (fold forget_message ms s) m = (if m \<in> set ms then None else messageIdMap s m)"
  by (induction ms arbitrary: s) simp_all

text \<open>The fields of a session after its \<^verbatim>\<open>cleanup\<close> ran.\<close>

lemma cleanup_open:
  assumes "infos s k = Some ci" "\<not> closed ci"
  shows "infos (cleanup k s) = (infos s)(k \<mapsto> ci\<lparr>closed := True\<rparr>)"
    and "clients (cleanup k s) = (clients s)(clientId ci := None)"
    and "clientMessageIds (cleanup k s) = (clientMessageIds s)(clientId ci := None)"
    and "stdoutListeners (cleanup k s) = removeAll k (stdoutListeners s)"
    and "pageOwnership (cleanup k s) p = (if p \<in> set (pages ci) then None else pageOwnership s p)"
    and "messageIdMap (cleanup k s) m = (if m \<in> set (messageIds ci) then None else messageIdMap s m)"
    and "nextMessageId (cleanup k s) = nextMessageId s + length (pages ci)"
    and "serveProcess (cleanup k s) = serveProcess s"
    and "destroyed (sockets (cleanup k s) k)"
    and "j \<noteq> k \<Longrightarrow> sockets (cleanup k s) j = sockets s j"
  using assms
  by (simp_all add: cleanup_def Let_def socket_destroy_def
        fold_close_page_pageOwnership fold_forget_message_messageIdMap)

lemma cleanup_closed:
  "infos s k = Some ci \<Longrightarrow> closed ci \<Longrightarrow> cleanup k s = s"
  by (simp add: cleanup_def)

lemma cleanup_twice: "cleanup k (cleanup k s) = cleanup k s"
proof (cases "infos s k")
  case None
  then show ?thesis by (simp add: cleanup_def)
next
  case (Some ci)
  show ?thesis
  proof (cases "closed ci")
    case True
    with Some show ?thesis by (simp add: cleanup_def)
  next
    case False
    from cleanup_open(1) [OF Some False]
    have "infos (cleanup k s) k = Some (ci\<lparr>closed := True\<rparr>)" by simp
    then show ?thesis by (rule cleanup_closed) simp
  qed
qed

text \<open>
  Claim C4. Running a session's \<^verbatim>\<open>cleanup\<close> again, any number of times, gives the state
  that running it once gives: the whole state is the same, so no further release request
  is enqueued, nothing more is removed, and the repeated run raises nothing.
\<close>

theorem cleanup_idempotent: "(cleanup k ^^ Suc n) s = cleanup k s"
  by (induction n) (simp_all add: cleanup_twice)


section \<open>Properties of the sessions\<close>

lemma client_data_serializer:
  "infos t k \<noteq> None \<Longrightarrow> serializer (client_data k d t) = serializer (writeToServe d t)"
  by (auto simp: client_data_def serializer_def writeToServe_def processWriteQueue_def settle_def Let_def
        split: option.splits list.splits stdin.splits)




section \<open>Well-formed sessions\<close>

lemma set_set_add [simp]: "set (set_add x xs) = insert x (set xs)"
  by (auto simp: set_add_def)

lemma set_set_delete [simp]: "set (set_delete x xs) = set xs - {x}"
  by (auto simp: set_delete_def)







text \<open>Well-formedness looks at five fields only.\<close>

lemma wf_cong:
  assumes "stdoutListeners s' = stdoutListeners s" "infos s' = infos s" "clients s' = clients s"
    "messageIdMap s' = messageIdMap s" "pageOwnership s' = pageOwnership s"
  shows "wf s' = wf s"
  using assms by (simp add: wf_def open_session_def)


lemma wf_writeToServe [simp]: "wf (writeToServe d s) = wf s"
  by (rule wf_cong) simp_all

lemma wf_write_callback [simp]: "wf (fst (write_callback err s)) = wf s"
  by (rule wf_cong) simp_all

lemma wf_socket_end [simp]: "wf (socket_end k s) = wf s"
  by (rule wf_cong) (simp_all add: socket_end_def)









lemma track_page_frame [simp]:
  "stdoutListeners (track_page k d s) = stdoutListeners s"
  "clients (track_page k d s) = clients s"
  "messageIdMap (track_page k d s) = messageIdMap s"
  "sockets (track_page k d s) = sockets s"
  "serializer (track_page k d s) = serializer s"
  by (simp_all add: track_page_def serializer_def split: option.splits)


lemma outputHandler_idle: "\<not> delivers k d s \<Longrightarrow> outputHandler k d s = s"
  by (auto simp: outputHandler_def delivers_def split: option.splits)

lemma outputHandler_delivers:
  assumes "infos s k = Some ci" "\<not> closed ci" "match_id d = Some m"
    "messageIdMap s m = Some (clientId ci)"
  shows "outputHandler k d s =
     track_page k d
       (s\<lparr>sockets := (sockets s)(k := (sockets s k)\<lparr>written := written (sockets s k) @ [d]\<rparr>),
          messageIdMap := (messageIdMap s)(m := None),
          infos := (infos s)(k \<mapsto> ci\<lparr>messageIds := set_delete m (messageIds ci)\<rparr>)\<rparr>)"
  using assms by (simp add: outputHandler_def socket_write_def Let_def)

lemma outputHandler_frame [simp]:
  "stdoutListeners (outputHandler k d s) = stdoutListeners s"
  "clients (outputHandler k d s) = clients s"
  "serializer (outputHandler k d s) = serializer s"
proof -
  have "stdoutListeners (outputHandler k d s) = stdoutListeners s
      \<and> clients (outputHandler k d s) = clients s
      \<and> serializer (outputHandler k d s) = serializer s"
  proof (cases "delivers k d s")
    case False
    then show ?thesis by (simp add: outputHandler_idle)
  next
    case True
    then obtain ci m where a: "infos s k = Some ci" "\<not> closed ci" "match_id d = Some m"
      "messageIdMap s m = Some (clientId ci)"
      by (auto simp: delivers_def)
    have "serializer (s\<lparr>sockets := (sockets s)(k := (sockets s k)\<lparr>written := written (sockets s k) @ [d]\<rparr>),
          messageIdMap := (messageIdMap s)(m := None),
          infos := (infos s)(k \<mapsto> ci\<lparr>messageIds := set_delete m (messageIds ci)\<rparr>)\<rparr>) = serializer s"
      by (simp add: serializer_def)
    then show ?thesis by (simp add: outputHandler_delivers [OF a])
  qed
  then show "stdoutListeners (outputHandler k d s) = stdoutListeners s"
    "clients (outputHandler k d s) = clients s"
    "serializer (outputHandler k d s) = serializer s"
    by simp_all
qed









section \<open>Routing of serve output\<close>








section \<open>Teardown\<close>

lemma fold_close_page_serializer:
  "serializer (fold close_page ps s)
   = serializer (wrun (map Enqueue (release_requests (nextMessageId s) ps)) s)"
proof (induction ps arbitrary: s)
  case Nil
  then show ?case by (simp add: wrun_def)
next
  case (Cons p ps)
  let ?s1 = "close_page p s"
  let ?t1 = "writeToServe (closePageCmd (nextMessageId s) p) s"
  have n: "nextMessageId ?s1 = Suc (nextMessageId s)" by simp
  have eq: "serializer ?s1 = serializer ?t1"
    by (simp add: close_page_def serializer_def writeToServe_def processWriteQueue_def settle_def
          Let_def split: list.splits option.splits stdin.splits)
  have run: "serializer (wrun evs a) = serializer (wrun evs b)"
    if "serializer a = serializer b" "serveProcess a = serveProcess b" for evs a b
    using that
  proof (induction evs arbitrary: a b)
    case Nil
    then show ?case by (simp add: wrun_def)
  next
    case (Cons e evs)
    have "serializer (wstep e a) = serializer (wstep e b) \<and> serveProcess (wstep e a) = serveProcess (wstep e b)"
      using Cons.prems
      by (cases e)
         (auto simp: serializer_def writeToServe_def write_callback_def processWriteQueue_def
            settle_def Let_def split: list.splits option.splits stdin.splits)
    with Cons.IH [of "wstep e a" "wstep e b"] show ?case by (simp add: wrun_def)
  qed
  have "serializer (fold close_page (p # ps) s) = serializer (fold close_page ps ?s1)" by simp
  also have "\<dots> = serializer (wrun (map Enqueue (release_requests (Suc (nextMessageId s)) ps)) ?s1)"
    using Cons.IH [of ?s1] n by simp
  also have "\<dots> = serializer (wrun (map Enqueue (release_requests (Suc (nextMessageId s)) ps)) ?t1)"
    by (rule run) (simp_all add: eq)
  finally show ?case by (simp add: wrun_def)
qed



lemma scan_examples:
  "trim ''secret'' = ''secret''"
  "match_id create_req = Some 7"
  "match_id create_resp = Some 7"
  "match_pageId create_resp = Some ''h1''"
  "str_includes create_resp ''createPage''"
  "str_includes create_resp (CHR 0x22 # ''result'' @ [CHR 0x22])"
  "match_id string_id_req = None"
  "match_id string_id_resp = None"
  by code_simp+


lemma session_opened_eq:
  "session_opened = (spawn StdinPipe constructor)
     \<lparr>infos := [0 \<mapsto> \<lparr>clientId = ''c1'', closed = False, pages = [], messageIds = []\<rparr>],
      clients := [''c1'' \<mapsto> 0], clientMessageIds := [''c1'' \<mapsto> 0], stdoutListeners := [0]\<rparr>"
  by (simp add: session_opened_def first_data_def forwardClientToServe_def scan_examples
        spawn_def constructor_def)

lemma request_sent_eq:
  "request_sent = session_opened
     \<lparr>infos := [0 \<mapsto> \<lparr>clientId = ''c1'', closed = False, pages = [], messageIds = [7]\<rparr>],
      messageIdMap := [7 \<mapsto> ''c1''],
      nextPromise := 1, isWriting := True, writeQueue := [],
      stdinWrites := [create_req], pendingWrites := [\<lparr>data = create_req, promise = 0\<rparr>]\<rparr>"
  by (simp add: request_sent_def client_data_def scan_examples session_opened_eq
        writeToServe_def processWriteQueue_def set_add_def spawn_def constructor_def Let_def)


lemma reachable_session_opened: "reachable ''secret'' StdinPipe session_opened"
  unfolding session_opened_def
  by (rule reachable.next_event [OF reachable.start]) (simp add: spawn_def constructor_def)

lemma reachable_request_sent: "reachable ''secret'' StdinPipe request_sent"
  unfolding request_sent_def
  by (rule reachable.next_event [OF reachable_session_opened]) (simp add: session_opened_eq)




lemma open_session_request_sent:
  "open_session request_sent 0 \<lparr>clientId = ''c1'', closed = False, pages = [], messageIds = [7]\<rparr>"
  by (simp add: open_session_def request_sent_eq session_opened_eq)




lemma wrun_serializer_cong:
  "serializer a = serializer b \<Longrightarrow> serveProcess a = serveProcess b
   \<Longrightarrow> serializer (wrun evs a) = serializer (wrun evs b)"
proof (induction evs arbitrary: a b)
  case Nil
  then show ?case by (simp add: wrun_def)
next
  case (Cons e evs)
  have "serializer (wstep e a) = serializer (wstep e b)
      \<and> serveProcess (wstep e a) = serveProcess (wstep e b)"
    using Cons.prems
    by (cases e)
       (auto simp: serializer_def writeToServe_def write_callback_def processWriteQueue_def
          settle_def Let_def split: list.splits option.splits stdin.splits)
  with Cons.IH [of "wstep e a" "wstep e b"] show ?case by (simp add: wrun_def)
qed


lemma enqueued_map_Enqueue [simp]: "enqueued (map Enqueue ds) = ds"
  by (induction ds) simp_all

lemma length_release_requests [simp]: "length (release_requests n ps) = length ps"
  by (induction ps arbitrary: n) simp_all


lemma cleanup_serializer:
  assumes "infos s k = Some ci" "\<not> closed ci"
  shows "serializer (cleanup k s)
         = serializer (wrun (map Enqueue (release_requests (nextMessageId s) (pages ci))) s)"
proof -
  let ?s1 = "s\<lparr>infos := (infos s)(k \<mapsto> ci\<lparr>closed := True\<rparr>),
                clients := (clients s)(clientId ci := None)\<rparr>"
  let ?reqs = "release_requests (nextMessageId s) (pages ci)"
  have "serializer (cleanup k s) = serializer (fold close_page (pages ci) ?s1)"
    using assms by (simp add: cleanup_def Let_def socket_destroy_def serializer_def)
  also have "\<dots> = serializer (wrun (map Enqueue ?reqs) ?s1)"
    using fold_close_page_serializer [of "pages ci" ?s1] by simp
  also have "\<dots> = serializer (wrun (map Enqueue ?reqs) s)"
    by (rule wrun_serializer_cong) (simp_all add: serializer_def)
  finally show ?thesis .
qed





section \<open>Request identifiers\<close>

lemma client_data_frame [simp]:
  "stdoutListeners (client_data k d s) = stdoutListeners s"
  "clients (client_data k d s) = clients s"
  "sockets (client_data k d s) = sockets s"
  "pageOwnership (client_data k d s) = pageOwnership s"
  by (simp_all add: client_data_def Let_def split: option.splits)







section \<open>The serializer inside the relay\<close>














text \<open>Every step of the relay acts on the write serializer as a run of the loop does.\<close>

lemma step_serializer:
  "\<exists>evs. serializer (step token e s) = serializer (wrun evs s)
         \<and> serveProcess (step token e s) = serveProcess s"
proof (cases e)
  case (FirstData cid k d)
  have "serializer (step token e s) = serializer (wrun [] s)
      \<and> serveProcess (step token e s) = serveProcess s"
    by (simp add: FirstData first_data_def forwardClientToServe_def socket_end_def
          serializer_def wrun_def)
  then show ?thesis by blast
next
  case (ClientData k d)
  show ?thesis
  proof (cases "infos s k")
    case None
    then have "serializer (step token e s) = serializer (wrun [] s)
      \<and> serveProcess (step token e s) = serveProcess s"
      by (simp add: ClientData client_data_def wrun_def)
    then show ?thesis by blast
  next
    case (Some ci)
    then have "serializer (step token e s) = serializer (wrun [Enqueue d] s)"
      by (simp add: ClientData client_data_serializer wrun_def)
    moreover have "serveProcess (step token e s) = serveProcess s"
      using Some by (simp add: ClientData client_data_def Let_def split: option.splits)
    ultimately show ?thesis by blast
  qed
next
  case (SocketClosed k)
  show ?thesis
  proof (cases "\<exists>ci. infos s k = Some ci \<and> \<not> closed ci")
    case False
    then have "step token e s = s"
      by (auto simp: SocketClosed cleanup_def split: option.splits)
    then have "serializer (step token e s) = serializer (wrun [] s)
      \<and> serveProcess (step token e s) = serveProcess s"
      by (simp add: wrun_def)
    then show ?thesis by blast
  next
    case True
    then obtain ci where i: "infos s k = Some ci" "\<not> closed ci" by blast
    from cleanup_serializer [OF i] cleanup_open(8) [OF i] show ?thesis
      by (auto simp: SocketClosed)
  qed
next
  case (ServeOutput d)
  have "serializer (fold (\<lambda>k. outputHandler k d) ks t) = serializer t
      \<and> serveProcess (fold (\<lambda>k. outputHandler k d) ks t) = serveProcess t" for ks t
  proof (induction ks arbitrary: t)
    case Nil
    then show ?case by simp
  next
    case (Cons k ks)
    have "serveProcess (outputHandler k d t) = serveProcess t"
      by (auto simp: outputHandler_def track_page_def socket_write_def Let_def
            split: option.splits)
    with Cons show ?case by simp
  qed
  then have "serializer (step token e s) = serializer (wrun [] s)
      \<and> serveProcess (step token e s) = serveProcess s"
    by (simp add: ServeOutput stdout_data_def wrun_def)
  then show ?thesis by blast
next
  case (WriteDone err)
  have "serializer (step token e s) = serializer (wrun [Complete err] s)
      \<and> serveProcess (step token e s) = serveProcess s"
    by (simp add: WriteDone wrun_def)
  then show ?thesis by blast
qed

lemma wrun_append: "wrun (evs @ evs') s = wrun evs' (wrun evs s)"
  by (simp add: wrun_def)

lemma wrun_serveProcess [simp]: "serveProcess (wrun evs s) = serveProcess s"
  unfolding wrun_def by (induction evs arbitrary: s) simp_all

lemma reachable_serializer:
  "reachable token mode s \<Longrightarrow>
   \<exists>evs. serializer s = serializer (wrun evs (spawn mode constructor))
         \<and> serveProcess s = Some mode"
proof (induction rule: reachable.induct)
  case start
  have "serializer (spawn mode constructor) = serializer (wrun [] (spawn mode constructor))"
    by (simp add: wrun_def)
  then show ?case by (auto simp: spawn_def)
next
  case (next_event s e)
  then obtain evs where a: "serializer s = serializer (wrun evs (spawn mode constructor))"
    "serveProcess s = Some mode" by blast
  from step_serializer [of token e s] obtain evs' where
    b: "serializer (step token e s) = serializer (wrun evs' s)"
       "serveProcess (step token e s) = serveProcess s" by blast
  have "serializer (wrun evs' s) = serializer (wrun evs' (wrun evs (spawn mode constructor)))"
    by (rule wrun_serializer_cong) (simp_all add: a spawn_def)
  with b have "serializer (step token e s) = serializer (wrun (evs @ evs') (spawn mode constructor))"
    by (simp add: wrun_append)
  moreover from a b have "serveProcess (step token e s) = Some mode" by simp
  ultimately show ?case by blast
qed



lemma start_idle: "idle (spawn mode constructor)"
  by (simp add: idle_def spawn_def constructor_def)


text \<open>
  Claim C2. From an idle serializer, after any sequence of enqueues and write completions,
  at most one write to the serve process is unfinished; the chunks handed to its standard
  input are whole payloads in the order they were enqueued (a prefix of the enqueue
  order); and when the standard input accepts writes, the chunks written followed by the
  queue are exactly the payloads enqueued, in order. Every reachable state of the relay
  has the serializer state of such a run from the start, so the same holds there.
\<close>

theorem write_serializer_single_flight_fifo:
  "(idle s0 \<longrightarrow>
      length (pendingWrites (wrun evs s0)) \<le> 1
    \<and> prefix (stdinWrites (wrun evs s0)) (enqueued evs)
    \<and> (serveProcess s0 \<noteq> Some StdinNull \<longrightarrow>
         stdinWrites (wrun evs s0) @ map data (writeQueue (wrun evs s0)) = enqueued evs))
   \<and> (reachable token mode s \<longrightarrow>
        (\<exists>evs'. serializer s = serializer (wrun evs' (spawn mode constructor))
           \<and> length (pendingWrites s) \<le> 1
           \<and> prefix (stdinWrites s) (enqueued evs')
           \<and> (mode = StdinPipe \<longrightarrow> stdinWrites s @ map data (writeQueue s) = enqueued evs')))"
proof -
  have A: "idle s0 \<longrightarrow>
      length (pendingWrites (wrun evs s0)) \<le> 1
    \<and> prefix (stdinWrites (wrun evs s0)) (enqueued evs)
    \<and> (serveProcess s0 \<noteq> Some StdinNull \<longrightarrow>
         stdinWrites (wrun evs s0) @ map data (writeQueue (wrun evs s0)) = enqueued evs)"
    using wrun_single_flight_fifo [of s0 evs] by blast
  have B: "reachable token mode s \<longrightarrow>
        (\<exists>evs'. serializer s = serializer (wrun evs' (spawn mode constructor))
           \<and> length (pendingWrites s) \<le> 1
           \<and> prefix (stdinWrites s) (enqueued evs')
           \<and> (mode = StdinPipe \<longrightarrow> stdinWrites s @ map data (writeQueue s) = enqueued evs'))"
  proof
    assume "reachable token mode s"
    from reachable_serializer [OF this] obtain evs' where
      e: "serializer s = serializer (wrun evs' (spawn mode constructor))" by blast
    then have f: "pendingWrites s = pendingWrites (wrun evs' (spawn mode constructor))"
      "stdinWrites s = stdinWrites (wrun evs' (spawn mode constructor))"
      "writeQueue s = writeQueue (wrun evs' (spawn mode constructor))"
      by (simp_all add: serializer_def)
    have m: "serveProcess (spawn mode constructor) \<noteq> Some StdinNull" if "mode = StdinPipe"
      using that by (simp add: spawn_def)
    from wrun_single_flight_fifo [OF start_idle, of evs' mode] e f m
    show "\<exists>evs'. serializer s = serializer (wrun evs' (spawn mode constructor))
           \<and> length (pendingWrites s) \<le> 1
           \<and> prefix (stdinWrites s) (enqueued evs')
           \<and> (mode = StdinPipe \<longrightarrow> stdinWrites s @ map data (writeQueue s) = enqueued evs')"
      by auto
  qed
  from A B show ?thesis by (rule conjI)
qed

theorem write_serializer_witness:
  "idle (spawn StdinPipe constructor)
   \<and> serveProcess (spawn StdinPipe constructor) \<noteq> Some StdinNull
   \<and> length (pendingWrites (wrun [Enqueue ''ab'', Enqueue ''cd'', Complete None, Enqueue ''ef'']
        (spawn StdinPipe constructor))) \<le> 1
   \<and> stdinWrites (wrun [Enqueue ''ab'', Enqueue ''cd'', Complete None, Enqueue ''ef'']
        (spawn StdinPipe constructor)) = [''ab'', ''cd'']
   \<and> map data (writeQueue (wrun [Enqueue ''ab'', Enqueue ''cd'', Complete None, Enqueue ''ef'']
        (spawn StdinPipe constructor))) = [''ef'']
   \<and> reachable ''secret'' StdinPipe request_sent
   \<and> length (pendingWrites request_sent) \<le> 1"
proof -
  have i: "idle (spawn StdinPipe constructor)" by (rule start_idle)
  have w: "stdinWrites (wrun [Enqueue ''ab'', Enqueue ''cd'', Complete None, Enqueue ''ef'']
        (spawn StdinPipe constructor)) = [''ab'', ''cd'']"
    by (simp add: wrun_def writeToServe_def write_callback_def processWriteQueue_def settle_def
          spawn_def constructor_def Let_def)
  from write_serializer_single_flight_fifo [of "spawn StdinPipe constructor"
      "[Enqueue ''ab'', Enqueue ''cd'', Complete None, Enqueue ''ef'']" "''secret''" StdinPipe
      request_sent] i w reachable_request_sent
  show ?thesis by (auto simp: spawn_def)
qed



text \<open>
  With the options \<^verbatim>\<open>startServer\<close> passes to \<^verbatim>\<open>spawn\<close> the standard input of the serve
  process is \<^verbatim>\<open>null\<close>: no chunk is ever handed to it.
\<close>

lemma startServer_never_writes:
  assumes "reachable token StdinNull s"
  shows "stdinWrites s = []"
proof -
  from reachable_serializer [OF assms] obtain evs where
    "serializer s = serializer (wrun evs (spawn StdinNull constructor))" by blast
  then have "stdinWrites s = stdinWrites (wrun evs (spawn StdinNull constructor))"
    by (simp add: serializer_def)
  also have "\<dots> = stdinWrites (spawn StdinNull constructor)"
    by (rule wrun_null) (simp add: spawn_def)
  finally show ?thesis by (simp add: spawn_def constructor_def)
qed

section \<open>Properties of the broadcast relay\<close>

lemma length_hex_digest [simp]: "length (hex_digest w) = 64"
  by (simp add: hex_digest_def)

lemma hex_digest_not_Nil [simp]: "hex_digest w \<noteq> []"
  by (simp add: hex_digest_def)

text \<open>
  Claim C9. For a non-empty string token, \<^verbatim>\<open>validateToken\<close> throws a RangeError whenever
  the token's byte length differs from 64, the length of the expected hexadecimal digest;
  it returns \<^verbatim>\<open>false\<close> only for a token of length 64 that differs from the expected one,
  and \<^verbatim>\<open>true\<close> for the expected one.
\<close>

theorem validateToken_throws_on_length_mismatch:
  "(t \<noteq> [] \<and> length t \<noteq> 64 \<longrightarrow>
      validateToken sha256 secret (TokenString t) sub = Inl RangeError)
   \<and> (length t = 64 \<and> t \<noteq> hex_digest (sha256 (sub @ '':'' @ secret)) \<longrightarrow>
      validateToken sha256 secret (TokenString t) sub = Inr False)
   \<and> (t \<noteq> [] \<and> validateToken sha256 secret (TokenString t) sub = Inr False \<longrightarrow>
      length t = 64 \<and> t \<noteq> hex_digest (sha256 (sub @ '':'' @ secret)))
   \<and> validateToken sha256 secret (TokenString (hex_digest (sha256 (sub @ '':'' @ secret)))) sub
       = Inr True
   \<and> length (hex_digest (sha256 (sub @ '':'' @ secret))) = 64"
  by (auto simp: validateToken_def truthy_def buffer_from_def timingSafeEqual_def Let_def)

theorem validateToken_witness:
  "''abc'' \<noteq> [] \<and> length ''abc'' \<noteq> 64
   \<and> validateToken (\<lambda>_. 0) ''s3cret'' (TokenString ''abc'') ''room'' = Inl RangeError
   \<and> length (replicate 64 CHR ''f'') = 64
   \<and> replicate 64 CHR ''f'' \<noteq> hex_digest ((\<lambda>_. 0) (''room'' @ '':'' @ ''s3cret''))
   \<and> validateToken (\<lambda>_. 0) ''s3cret'' (TokenString (replicate 64 CHR ''f'')) ''room'' = Inr False"
proof -
  have ne: "replicate 64 CHR ''f'' \<noteq> hex_digest (0 :: 256 word)"
  proof
    assume "replicate 64 CHR ''f'' = hex_digest (0 :: 256 word)"
    then have "replicate 64 CHR ''f'' ! 0 = hex_digest (0 :: 256 word) ! 0" by simp
    then have "CHR ''f'' = char_of (48 :: nat)" by (simp add: hex_digest_def hex_char_def)
    then have "(of_char CHR ''f'' :: nat) = of_char (char_of (48 :: nat))" by simp
    then show False by simp
  qed
  from validateToken_throws_on_length_mismatch
         [where t = "''abc''" and ?sha256.0 = "\<lambda>_. 0" and sub = "''room''" and secret = "''s3cret''"]
    validateToken_throws_on_length_mismatch
         [where t = "replicate 64 CHR ''f''" and ?sha256.0 = "\<lambda>_. 0" and sub = "''room''"
            and secret = "''s3cret''"]
    ne
  show ?thesis by simp
qed

lemma upgrade_fields [simp]:
  "conns (upgrade r cid sub now s) =
     (conns s)(r \<mapsto> \<lparr>conn_id = cid, subdomain = sub, ws = \<lparr>sent = [], close_called = False\<rparr>,
        connectedAt = now, lastPing = now, authenticated = False\<rparr>)"
  "ClientConnections (upgrade r cid sub now s) = AList.update cid r (ClientConnections s)"
  "SubdomainToConnection (upgrade r cid sub now s) = (SubdomainToConnection s)(sub \<mapsto> cid)"
  "RemoteClients (upgrade r cid sub now s) = RemoteClients s"
  by (simp_all add: upgrade_def)

text \<open>
  Claim C10. The close handler of a connection removes the registration of its channel
  whoever owns it: when connection \<open>a\<close> registered channel \<open>sub\<close>, connection \<open>b\<close>
  replaced it as owner, and \<open>a\<close> then closes, the channel has no owner although \<open>b\<close>
  is still registered and open.
\<close>

theorem close_removes_channel_owner_unconditionally:
  "(conns s r = Some c \<longrightarrow> SubdomainToConnection (on_close r s) (subdomain c) = None)
   \<and> (a \<noteq> b \<and> ida \<noteq> idb \<longrightarrow>
        SubdomainToConnection (upgrade b idb sub t2 (upgrade a ida sub t1 s)) sub = Some idb
      \<and> SubdomainToConnection (on_close a (upgrade b idb sub t2 (upgrade a ida sub t1 s))) sub = None
      \<and> map_of (ClientConnections (on_close a (upgrade b idb sub t2 (upgrade a ida sub t1 s)))) idb
           = Some b
      \<and> conns (on_close a (upgrade b idb sub t2 (upgrade a ida sub t1 s))) b
           = Some \<lparr>conn_id = idb, subdomain = sub, ws = \<lparr>sent = [], close_called = False\<rparr>,
                connectedAt = t2, lastPing = t2, authenticated = False\<rparr>)"
proof -
  have 1: "conns s r = Some c \<longrightarrow> SubdomainToConnection (on_close r s) (subdomain c) = None"
    by (simp add: on_close_def)
  let ?s2 = "upgrade b idb sub t2 (upgrade a ida sub t1 s)"
  have 2: "a \<noteq> b \<and> ida \<noteq> idb \<longrightarrow>
        SubdomainToConnection ?s2 sub = Some idb
      \<and> SubdomainToConnection (on_close a ?s2) sub = None
      \<and> map_of (ClientConnections (on_close a ?s2)) idb = Some b
      \<and> conns (on_close a ?s2) b
           = Some \<lparr>conn_id = idb, subdomain = sub, ws = \<lparr>sent = [], close_called = False\<rparr>,
                connectedAt = t2, lastPing = t2, authenticated = False\<rparr>"
    by (simp add: on_close_def update_conv' delete_conv')
  from 1 2 show ?thesis by (rule conjI)
qed

theorem close_removes_channel_owner_witness:
  "(0::nat) \<noteq> 1 \<and> ''idA'' \<noteq> ''idB''
   \<and> conns (upgrade 1 ''idB'' ''room'' 6 (upgrade 0 ''idA'' ''room'' 5 reflector_init)) 0
        = Some \<lparr>conn_id = ''idA'', subdomain = ''room'', ws = \<lparr>sent = [], close_called = False\<rparr>,
                connectedAt = 5, lastPing = 5, authenticated = False\<rparr>
   \<and> SubdomainToConnection
        (upgrade 1 ''idB'' ''room'' 6 (upgrade 0 ''idA'' ''room'' 5 reflector_init)) ''room''
        = Some ''idB''
   \<and> SubdomainToConnection
        (on_close 0 (upgrade 1 ''idB'' ''room'' 6 (upgrade 0 ''idA'' ''room'' 5 reflector_init))) ''room''
        = None
   \<and> map_of (ClientConnections
        (on_close 0 (upgrade 1 ''idB'' ''room'' 6 (upgrade 0 ''idA'' ''room'' 5 reflector_init)))) ''idB''
        = Some 1"
proof -
  have c: "conns (upgrade 1 ''idB'' ''room'' 6 (upgrade 0 ''idA'' ''room'' 5 reflector_init)) 0
        = Some \<lparr>conn_id = ''idA'', subdomain = ''room'', ws = \<lparr>sent = [], close_called = False\<rparr>,
                connectedAt = 5, lastPing = 5, authenticated = False\<rparr>"
    by simp
  from close_removes_channel_owner_unconditionally
         [where s = reflector_init and a = 0 and b = 1 and ida = "''idA''" and idb = "''idB''"
            and sub = "''room''" and ?t1.0 = 5 and ?t2.0 = 6] c
  show ?thesis by simp
qed

lemma ws_send_fields [simp]:
  "ClientConnections (ws_send r m s) = ClientConnections s"
  "SubdomainToConnection (ws_send r m s) = SubdomainToConnection s"
  "RemoteClients (ws_send r m s) = RemoteClients s"
  by (simp_all add: ws_send_def split: option.splits)

lemma ws_send_conns:
  "conns (ws_send r m s) r' =
     (if r' = r then map_option (\<lambda>c. c\<lparr>ws := (ws c)\<lparr>sent := sent (ws c) @ [m]\<rparr>\<rparr>) (conns s r)
      else conns s r')"
  by (simp add: ws_send_def split: option.splits)

lemma relay_to_fields [simp]:
  "ClientConnections (relay_to cid sub m e s) = ClientConnections s"
  "SubdomainToConnection (relay_to cid sub m e s) = SubdomainToConnection s"
  "RemoteClients (relay_to cid sub m e s) = RemoteClients s"
  by (simp_all add: relay_to_def split: option.splits)

lemma relay_to_conns:
  "conns (relay_to cid sub m e s) r' =
     (if r' = snd e then map_option (relayed cid sub m) (conns s r') else conns s r')"
  by (cases "conns s (snd e)") (auto simp: relay_to_def relayed_def ws_send_conns)

lemma fold_relay_to_conns:
  "distinct (map snd es) \<Longrightarrow>
   conns (fold (relay_to cid sub m) es s) r' =
     (if r' \<in> snd ` set es then map_option (relayed cid sub m) (conns s r') else conns s r')"
proof (induction es arbitrary: s)
  case Nil
  then show ?case by simp
next
  case (Cons e es)
  then show ?case by (auto simp: relay_to_conns)
qed

lemma fold_relay_to_fields [simp]:
  "ClientConnections (fold (relay_to cid sub m) es s) = ClientConnections s"
  "SubdomainToConnection (fold (relay_to cid sub m) es s) = SubdomainToConnection s"
  "RemoteClients (fold (relay_to cid sub m) es s) = RemoteClients s"
  by (induction es arbitrary: s) simp_all

lemma consistent_distinct_refs:
  assumes "consistent s"
  shows "distinct (map snd (ClientConnections s))"
proof -
  from assms have d: "distinct (map fst (ClientConnections s))"
    and h: "\<forall>(key, r) \<in> set (ClientConnections s). \<exists>c. conns s r = Some c \<and> conn_id c = key"
    by (simp_all add: consistent_def)
  have "inj_on snd (set (ClientConnections s))"
  proof (rule inj_onI)
    fix x y
    assume x: "x \<in> set (ClientConnections s)" and y: "y \<in> set (ClientConnections s)"
      and e: "snd x = snd y"
    from h x obtain c where c: "conns s (snd x) = Some c" "conn_id c = fst x" by (cases x) auto
    from h y obtain c' where c': "conns s (snd y) = Some c'" "conn_id c' = fst y" by (cases y) auto
    from c c' e have "fst x = fst y" by simp
    with e show "x = y" by (simp add: prod_eq_iff)
  qed
  moreover from d have "distinct (ClientConnections s)" by (simp add: distinct_map)
  ultimately show ?thesis by (simp add: distinct_map)
qed

text \<open>A registered connection other than the registered sender has another identifier.\<close>

lemma consistent_other_id:
  assumes "consistent s" "conns s r = Some c" "map_of (ClientConnections s) (conn_id c) = Some r"
    and "registered s r'" "conns s r' = Some c'"
  shows "conn_id c' \<noteq> conn_id c \<longleftrightarrow> r' \<noteq> r"
proof -
  from assms(1) have d: "distinct (map fst (ClientConnections s))"
    and h: "\<forall>(key, r) \<in> set (ClientConnections s). \<exists>c. conns s r = Some c \<and> conn_id c = key"
    by (simp_all add: consistent_def)
  from assms(4) obtain key where k: "(key, r') \<in> set (ClientConnections s)"
    by (auto simp: registered_def)
  with h assms(5) have key: "key = conn_id c'" by auto
  from k d have m: "map_of (ClientConnections s) key = Some r'" by simp
  show ?thesis
  proof
    assume "conn_id c' \<noteq> conn_id c"
    with assms(2,5) show "r' \<noteq> r" by auto
  next
    assume "r' \<noteq> r"
    with m assms(3) key show "conn_id c' \<noteq> conn_id c" by auto
  qed
qed

lemma consistent_registered_conn:
  "consistent s \<Longrightarrow> registered s r' \<Longrightarrow> \<exists>c'. conns s r' = Some c'"
  by (fastforce simp: consistent_def registered_def)

lemma relay_loop_sent:
  assumes con: "consistent s" and c: "conns s r = Some c"
    and reg: "map_of (ClientConnections s) (conn_id c) = Some r"
  shows "sent_to (fold (relay_to (conn_id c) (subdomain c) m) (ClientConnections s)
            (s\<lparr>conns := (conns s)(r \<mapsto> c\<lparr>lastPing := now\<rparr>)\<rparr>)) r'
         = (if recipient s r c r' then sent_to s r' @ [m] else sent_to s r')"
proof -
  let ?s1 = "s\<lparr>conns := (conns s)(r \<mapsto> c\<lparr>lastPing := now\<rparr>)\<rparr>"
  let ?s' = "fold (relay_to (conn_id c) (subdomain c) m) (ClientConnections s) ?s1"
  have d: "distinct (map snd (ClientConnections s))"
    using con by (rule consistent_distinct_refs)
  have conns': "conns ?s' r' =
      (if r' \<in> snd ` set (ClientConnections s)
       then map_option (relayed (conn_id c) (subdomain c) m) (conns ?s1 r') else conns ?s1 r')"
    using d by (rule fold_relay_to_conns)
  show ?thesis
  proof (cases "r' = r")
    case True
    then show ?thesis
      using conns' c by (simp add: sent_to_def recipient_def relayed_def)
  next
    case False
    show ?thesis
    proof (cases "registered s r'")
      case True
      with con obtain c' where c': "conns s r' = Some c'"
        using consistent_registered_conn by blast
      from consistent_other_id [OF con c reg True c'] False
      have "conn_id c' \<noteq> conn_id c" by simp
      with conns' c' True False show ?thesis
        by (simp add: sent_to_def recipient_def relayed_def registered_def)
    next
      case nr: False
      with conns' False show ?thesis
        by (simp add: sent_to_def recipient_def registered_def)
    qed
  qed
qed

lemma sent_to_ws_send:
  "sent_to (ws_send r m s) r' =
     (if r' = r \<and> conns s r \<noteq> None then sent_to s r @ [m] else sent_to s r')"
  by (auto simp: sent_to_def ws_send_conns split: option.splits)

text \<open>
  Claim C8, as amended. A registered connection \<open>r\<close> sends a message that parses to a
  value other than \<^verbatim>\<open>null\<close> and is not an auth message carrying a token. If the connection
  has passed validation and the message is not a ping, the message is sent to exactly the
  registered connections on the sender's channel that are authenticated and are not the
  sender, and to no one else. If the connection has not passed validation, the only thing
  sent is the not-authenticated error, to the sender. A ping from a validated connection is
  answered with a pong and relayed to no one; a message that does not parse, or parses to
  \<^verbatim>\<open>null\<close>, changes nothing and is not answered.
\<close>

theorem relay_to_channel_members:
  assumes "consistent s" and "conns s r = Some c"
    and "map_of (ClientConnections s) (conn_id c) = Some r"
  shows "(parse message = Value ty token \<and> \<not> (ty = Some ''auth'' \<and> truthy token)
            \<and> ty \<noteq> Some ''ping'' \<and> authenticated c \<longrightarrow>
          (\<forall>r'. sent_to (on_message sha256 secret parse now r message s) r'
                = (if recipient s r c r' then sent_to s r' @ [message] else sent_to s r')))
       \<and> (parse message = Value ty token \<and> \<not> (ty = Some ''auth'' \<and> truthy token)
            \<and> \<not> authenticated c \<longrightarrow>
          (\<forall>r'. sent_to (on_message sha256 secret parse now r message s) r'
                = (if r' = r then sent_to s r @ [not_authenticated] else sent_to s r')))
       \<and> (parse message = Value (Some ''ping'') token \<and> authenticated c \<longrightarrow>
          (\<forall>r'. sent_to (on_message sha256 secret parse now r message s) r'
                = (if r' = r then sent_to s r @ [pong] else sent_to s r')))
       \<and> (parse message = ParseError \<or> parse message = NullValue \<longrightarrow>
          on_message sha256 secret parse now r message s = s)"
proof -
  let ?s' = "on_message sha256 secret parse now r message s"
  have fwd: "sent_to ?s' r' = (if recipient s r c r' then sent_to s r' @ [message] else sent_to s r')"
    if "parse message = Value ty token" "\<not> (ty = Some ''auth'' \<and> truthy token)"
      "ty \<noteq> Some ''ping''" "authenticated c" for r'
  proof -
    have "?s' = fold (relay_to (conn_id c) (subdomain c) message) (ClientConnections s)
                  (s\<lparr>conns := (conns s)(r \<mapsto> c\<lparr>lastPing := now\<rparr>)\<rparr>)"
      using that assms(2) by (auto simp: on_message_def Let_def)
    then show ?thesis using relay_loop_sent [OF assms] by simp
  qed
  have una: "sent_to ?s' r' = (if r' = r then sent_to s r @ [not_authenticated] else sent_to s r')"
    if "parse message = Value ty token" "\<not> (ty = Some ''auth'' \<and> truthy token)"
      "\<not> authenticated c" for r'
  proof -
    have "?s' = ws_send r not_authenticated s"
      using that assms(2) by (auto simp: on_message_def)
    then show ?thesis using assms(2) by (simp add: sent_to_ws_send)
  qed
  have png: "sent_to ?s' r' = (if r' = r then sent_to s r @ [pong] else sent_to s r')"
    if "parse message = Value (Some ''ping'') token" "authenticated c" for r'
  proof -
    have "?s' = ws_send r pong (s\<lparr>conns := (conns s)(r \<mapsto> c\<lparr>lastPing := now\<rparr>)\<rparr>)"
      using that assms(2) by (simp add: on_message_def)
    then show ?thesis using assms(2) by (simp add: sent_to_ws_send) (simp add: sent_to_def)
  qed
  have drop: "?s' = s" if "parse message = ParseError \<or> parse message = NullValue"
    using that assms(2) by (auto simp: on_message_def)
  from fwd una png drop show ?thesis by blast
qed

lemma hex_digest_zero: "hex_digest 0 = replicate 64 CHR ''0''"
proof -
  have "hex_char 0 = CHR ''0''" by code_simp
  then show ?thesis by (simp add: hex_digest_def map_replicate_const)
qed

lemma auth_msg_valid:
  "validateToken sha_stub secret (TokenString (replicate 64 CHR ''0'')) sub = Inr True"
  by (simp add: validateToken_def truthy_def buffer_from_def timingSafeEqual_def sha_stub_def
        hex_digest_zero)

lemma ping_msg_not_auth_msg: "ping_msg \<noteq> auth_msg"
  by code_simp

lemma both_connected_fields:
  "conns both_connected =
     [0 \<mapsto> \<lparr>conn_id = ''idA'', subdomain = ''room'', ws = \<lparr>sent = [], close_called = False\<rparr>,
             connectedAt = 5, lastPing = 5, authenticated = False\<rparr>,
      1 \<mapsto> \<lparr>conn_id = ''idB'', subdomain = ''room'', ws = \<lparr>sent = [], close_called = False\<rparr>,
             connectedAt = 6, lastPing = 6, authenticated = False\<rparr>]"
  "ClientConnections both_connected = [(''idA'', 0), (''idB'', 1)]"
  by (simp_all add: both_connected_def reflector_init_def)

lemma both_authenticated_fields:
  "conns both_authenticated =
     [0 \<mapsto> \<lparr>conn_id = ''idA'', subdomain = ''room'', ws = \<lparr>sent = [auth_ok], close_called = False\<rparr>,
             connectedAt = 5, lastPing = 5, authenticated = True\<rparr>,
      1 \<mapsto> \<lparr>conn_id = ''idB'', subdomain = ''room'', ws = \<lparr>sent = [auth_ok], close_called = False\<rparr>,
             connectedAt = 6, lastPing = 6, authenticated = True\<rparr>]"
  "ClientConnections both_authenticated = [(''idA'', 0), (''idB'', 1)]"
  by (simp_all add: both_authenticated_def on_message_def parse_stub_def truthy_def auth_msg_valid
        both_connected_fields ws_send_def fun_upd_twist)

lemma parse_stub_values:
  "parse_stub ping_msg = Value (Some ''ping'') Falsy"
  "parse_stub chat_msg = Value (Some ''chat'') Falsy"
  "parse_stub ''not json'' = ParseError"
  by code_simp+

lemma both_authenticated_consistent: "consistent both_authenticated"
  by (simp add: consistent_def both_authenticated_fields)

lemma both_connected_consistent: "consistent both_connected"
  by (simp add: consistent_def both_connected_fields)

text \<open>
  Claim C8 as stated fails. With two validated connections on the channel \<open>room\<close>, a ping
  from the first is not sent to the second, although the second is registered on the
  channel, authenticated and not the sender; and a message that does not parse, from a
  connection that has not passed validation, is not answered at all.
\<close>

theorem relay_every_message_counterexample:
  "conns both_authenticated 0
     = Some \<lparr>conn_id = ''idA'', subdomain = ''room'', ws = \<lparr>sent = [auth_ok], close_called = False\<rparr>,
             connectedAt = 5, lastPing = 5, authenticated = True\<rparr>
   \<and> recipient both_authenticated 0
        \<lparr>conn_id = ''idA'', subdomain = ''room'', ws = \<lparr>sent = [auth_ok], close_called = False\<rparr>,
         connectedAt = 5, lastPing = 5, authenticated = True\<rparr> 1
   \<and> sent_to both_authenticated 1 = [auth_ok]
   \<and> sent_to (on_message sha_stub ''s3cret'' parse_stub 9 0 ping_msg both_authenticated) 1 = [auth_ok]
   \<and> conns both_connected 0
     = Some \<lparr>conn_id = ''idA'', subdomain = ''room'', ws = \<lparr>sent = [], close_called = False\<rparr>,
             connectedAt = 5, lastPing = 5, authenticated = False\<rparr>
   \<and> sent_to (on_message sha_stub ''s3cret'' parse_stub 9 0 ''not json'' both_connected) 0 = []"
  by (simp add: recipient_def registered_def sent_to_def both_authenticated_fields
        both_connected_fields on_message_def parse_stub_values ws_send_def)



theorem relay_to_channel_members_witness:
  "consistent both_authenticated
   \<and> conns both_authenticated 0
     = Some \<lparr>conn_id = ''idA'', subdomain = ''room'', ws = \<lparr>sent = [auth_ok], close_called = False\<rparr>,
             connectedAt = 5, lastPing = 5, authenticated = True\<rparr>
   \<and> map_of (ClientConnections both_authenticated) ''idA'' = Some 0
   \<and> parse_stub chat_msg = Value (Some ''chat'') Falsy
   \<and> sent_to (on_message sha_stub ''s3cret'' parse_stub 9 0 chat_msg both_authenticated) 1
       = [auth_ok, chat_msg]
   \<and> sent_to (on_message sha_stub ''s3cret'' parse_stub 9 0 chat_msg both_authenticated) 0
       = [auth_ok]
   \<and> sent_to (on_message sha_stub ''s3cret'' parse_stub 9 0 ping_msg both_authenticated) 0
       = [auth_ok, pong]
   \<and> consistent both_connected
   \<and> conns both_connected 0
     = Some \<lparr>conn_id = ''idA'', subdomain = ''room'', ws = \<lparr>sent = [], close_called = False\<rparr>,
             connectedAt = 5, lastPing = 5, authenticated = False\<rparr>
   \<and> map_of (ClientConnections both_connected) ''idA'' = Some 0
   \<and> sent_to (on_message sha_stub ''s3cret'' parse_stub 9 0 chat_msg both_connected) 0
       = [not_authenticated]
   \<and> sent_to (on_message sha_stub ''s3cret'' parse_stub 9 0 chat_msg both_connected) 1 = []
   \<and> on_message sha_stub ''s3cret'' parse_stub 9 0 ''not json'' both_connected = both_connected"
proof -
  let ?cA = "\<lparr>conn_id = ''idA'', subdomain = ''room'', ws = \<lparr>sent = [auth_ok], close_called = False\<rparr>,
             connectedAt = 5, lastPing = 5, authenticated = True\<rparr>"
  let ?cU = "\<lparr>conn_id = ''idA'', subdomain = ''room'', ws = \<lparr>sent = [], close_called = False\<rparr>,
             connectedAt = 5, lastPing = 5, authenticated = False\<rparr>"
  have a: "conns both_authenticated 0 = Some ?cA"
    and am: "map_of (ClientConnections both_authenticated) (conn_id ?cA) = Some 0"
    by (simp_all add: both_authenticated_fields)
  have b: "conns both_connected 0 = Some ?cU"
    and bm: "map_of (ClientConnections both_connected) (conn_id ?cU) = Some 0"
    by (simp_all add: both_connected_fields)
  have rc: "recipient both_authenticated 0 ?cA 1" "\<not> recipient both_authenticated 0 ?cA 0"
    by (simp_all add: recipient_def registered_def both_authenticated_fields)
  have st: "sent_to both_authenticated 0 = [auth_ok]" "sent_to both_authenticated 1 = [auth_ok]"
    "sent_to both_connected 0 = []" "sent_to both_connected 1 = []"
    by (simp_all add: sent_to_def both_authenticated_fields both_connected_fields)
  note t1 = relay_to_channel_members [OF both_authenticated_consistent a am,
      where parse = parse_stub and message = chat_msg and ty = "Some ''chat''" and token = Falsy
        and ?sha256.0 = sha_stub and secret = "''s3cret''" and now = 9]
  note t2 = relay_to_channel_members [OF both_authenticated_consistent a am,
      where parse = parse_stub and message = ping_msg and ty = "Some ''ping''" and token = Falsy
        and ?sha256.0 = sha_stub and secret = "''s3cret''" and now = 9]
  note t3 = relay_to_channel_members [OF both_connected_consistent b bm,
      where parse = parse_stub and message = chat_msg and ty = "Some ''chat''" and token = Falsy
        and ?sha256.0 = sha_stub and secret = "''s3cret''" and now = 9]
  note t4 = relay_to_channel_members [OF both_connected_consistent b bm,
      where parse = parse_stub and message = "''not json''" and ty = "Some ''chat''" and token = Falsy
        and ?sha256.0 = sha_stub and secret = "''s3cret''" and now = 9]
  from t1 rc st have 1:
    "sent_to (on_message sha_stub ''s3cret'' parse_stub 9 0 chat_msg both_authenticated) 1 = [auth_ok, chat_msg]"
    "sent_to (on_message sha_stub ''s3cret'' parse_stub 9 0 chat_msg both_authenticated) 0 = [auth_ok]"
    by (simp_all add: parse_stub_values truthy_def)
  from t2 st have 2:
    "sent_to (on_message sha_stub ''s3cret'' parse_stub 9 0 ping_msg both_authenticated) 0 = [auth_ok, pong]"
    by (simp add: parse_stub_values)
  from t3 st have 3:
    "sent_to (on_message sha_stub ''s3cret'' parse_stub 9 0 chat_msg both_connected) 0 = [not_authenticated]"
    "sent_to (on_message sha_stub ''s3cret'' parse_stub 9 0 chat_msg both_connected) 1 = []"
    by (simp_all add: parse_stub_values truthy_def)
  from t4 have 4:
    "on_message sha_stub ''s3cret'' parse_stub 9 0 ''not json'' both_connected = both_connected"
    by (simp add: parse_stub_values)
  from both_authenticated_consistent both_connected_consistent a am b bm 1 2 3 4
  show ?thesis by (simp add: parse_stub_values)
qed

end
